theory Spec2Isabelle
  imports Main
begin

section \<open>Values of the webhook payload\<close>

text \<open>
  The payload of a webhook is what \<^verbatim>\<open>request.get_json()\<close> returns: a Python value
  built from \<^verbatim>\<open>None\<close>, \<^verbatim>\<open>bool\<close>, \<^verbatim>\<open>int\<close>, \<^verbatim>\<open>str\<close>, \<^verbatim>\<open>list\<close> and \<^verbatim>\<open>dict\<close>.
  A dict is an association list in insertion order whose keys are strings.
  Strings are read as ASCII text: on code points beyond ASCII Python's
  \<^verbatim>\<open>upper\<close>, \<^verbatim>\<open>isdigit\<close> and \<^verbatim>\<open>isalpha\<close> follow the Unicode tables, which are
  not part of this development. Floating-point numbers are not part of it either.
\<close>

datatype json =
    JNull
  | JBool bool
  | JNum int
  | JStr string
  | JArr "json list"
  | JObj "(string \<times> json) list"

datatype error =
    AttributeError
  | InterfaceError
  | OverflowError
  | IntegrityError
  | ValueError
  | HTTPException

text \<open>Python's truth value of an object (\<^verbatim>\<open>if not x\<close>, \<^verbatim>\<open>x or y\<close>).\<close>

fun truthy :: "json \<Rightarrow> bool" where
  "truthy JNull = False"
| "truthy (JBool b) = b"
| "truthy (JNum n) = (n \<noteq> 0)"
| "truthy (JStr s) = (s \<noteq> [])"
| "truthy (JArr xs) = (xs \<noteq> [])"
| "truthy (JObj ps) = (ps \<noteq> [])"

text \<open>\<^verbatim>\<open>d.get(k, default)\<close> and \<^verbatim>\<open>d.get(k)\<close> on a dict.\<close>

definition get_default :: "(string \<times> json) list \<Rightarrow> string \<Rightarrow> json \<Rightarrow> json" where
  "get_default d k dflt = (case map_of d k of None \<Rightarrow> dflt | Some v \<Rightarrow> v)"

definition get :: "(string \<times> json) list \<Rightarrow> string \<Rightarrow> json" where
  "get d k = get_default d k JNull"

section \<open>Strings\<close>

definition upper_char :: "char \<Rightarrow> char" where
  "upper_char c =
     (let n = (of_char c :: nat) in if 97 \<le> n \<and> n \<le> 122 then char_of (n - 32) else c)"

definition upper :: "string \<Rightarrow> string" where
  "upper s = map upper_char s"

definition isdigit_char :: "char \<Rightarrow> bool" where
  "isdigit_char c = (let n = (of_char c :: nat) in 48 \<le> n \<and> n \<le> 57)"

definition isalpha_char :: "char \<Rightarrow> bool" where
  "isalpha_char c =
     (let n = (of_char c :: nat) in (65 \<le> n \<and> n \<le> 90) \<or> (97 \<le> n \<and> n \<le> 122))"

text \<open>\<^verbatim>\<open>str.isdigit\<close> and \<^verbatim>\<open>str.isalpha\<close> are false on the empty string.\<close>

definition isdigit :: "string \<Rightarrow> bool" where
  "isdigit s = (s \<noteq> [] \<and> list_all isdigit_char s)"

definition isalpha :: "string \<Rightarrow> bool" where
  "isalpha s = (s \<noteq> [] \<and> list_all isalpha_char s)"

definition startswith :: "string \<Rightarrow> string \<Rightarrow> bool" where
  "startswith s p = (take (length p) s = p)"

text \<open>The slice \<^verbatim>\<open>s[-n:]\<close>: the last \<open>n\<close> characters, the whole string when it is shorter.\<close>

definition last_chars :: "nat \<Rightarrow> string \<Rightarrow> string" where
  "last_chars n s = drop (length s - n) s"

section \<open>Carrier classifier\<close>

text \<open>
  \<^verbatim>\<open>detect_carrier(tracking_number)\<close>. The argument is whatever the payload holds under
  \<^verbatim>\<open>tracking_number\<close>; a true value that is not a string has no \<^verbatim>\<open>upper\<close> method.
\<close>

definition detect_carrier :: "json \<Rightarrow> error + string" where
  "detect_carrier tracking_number =
     (if \<not> truthy tracking_number then Inr ''UNKNOWN''
      else case tracking_number of
        JStr s \<Rightarrow>
          (let tn = upper s in
           if startswith tn ''1Z'' then Inr ''UPS''
           else if length tn \<ge> 12 \<and> isdigit tn then Inr ''FEDEX''
           else if (length tn \<ge> 16 \<and> tn ! 0 = CHR ''9'' \<and> isdigit tn) \<or>
                   (length tn = 13 \<and> isalpha (take 2 tn) \<and> last_chars 2 tn = ''US'')
                then Inr ''USPS''
           else if length tn \<in> {10, 11} \<and> isdigit tn then Inr ''DHL''
           else Inr ''CARRIER'')
      | _ \<Rightarrow> Inl AttributeError)"

text \<open>
  The classifier as section 4.1 of the specification words it: six rules on the
  tracking number, checked in order, the first match winning. Only rule 2 is
  worded as case-insensitive.
\<close>

definition spec_rule2 :: "string \<Rightarrow> bool" where
  "spec_rule2 s = startswith (upper s) ''1Z''"

definition spec_rule3 :: "string \<Rightarrow> bool" where
  "spec_rule3 s = (length s \<ge> 12 \<and> isdigit s)"

definition spec_rule4 :: "string \<Rightarrow> bool" where
  "spec_rule4 s =
     ((length s \<ge> 16 \<and> take 1 s = ''9'' \<and> isdigit s) \<or>
      (length s = 13 \<and> isalpha (take 2 s) \<and> last_chars 2 s = ''US''))"

definition spec_rule5 :: "string \<Rightarrow> bool" where
  "spec_rule5 s = (length s \<in> {10, 11} \<and> isdigit s)"

fun first_match :: "(('a \<Rightarrow> bool) \<times> string) list \<Rightarrow> string \<Rightarrow> 'a \<Rightarrow> string" where
  "first_match [] other x = other"
| "first_match ((p, tag) # rules) other x = (if p x then tag else first_match rules other x)"

definition spec_classify :: "string \<Rightarrow> string" where
  "spec_classify s =
     first_match
       [(\<lambda>s. s = [], ''UNKNOWN''),
        (spec_rule2, ''UPS''),
        (spec_rule3, ''FEDEX''),
        (spec_rule4, ''USPS''),
        (spec_rule5, ''DHL'')]
       ''CARRIER'' s"

section \<open>Text of numbers and of Python objects\<close>

definition digit_char :: "nat \<Rightarrow> char" where
  "digit_char n = char_of (48 + n)"

function dec_nat :: "nat \<Rightarrow> string" where
  "dec_nat n = (if n < 10 then [digit_char n] else dec_nat (n div 10) @ [digit_char (n mod 10)])"
  by pat_completeness auto
termination
  by (relation "measure (\<lambda>n. n)") auto

declare dec_nat.simps [simp del]

definition dec_int :: "int \<Rightarrow> string" where
  "dec_int i = (if i < 0 then CHR ''-'' # dec_nat (nat (- i)) else dec_nat (nat i))"

definition hex_digit :: "nat \<Rightarrow> char" where
  "hex_digit n = (if n < 10 then char_of (48 + n) else char_of (87 + n))"

fun join :: "string \<Rightarrow> string list \<Rightarrow> string" where
  "join sep [] = []"
| "join sep [x] = x"
| "join sep (x # y # ys) = x @ sep @ join sep (y # ys)"

text \<open>
  \<^verbatim>\<open>repr\<close> of a string: single quotes unless the string holds a single quote and no
  double quote; the quote and the backslash escaped, tab, newline and carriage return
  by letter, the other control characters as \<^verbatim>\<open>\xNN\<close>.
\<close>

definition repr_quote :: "string \<Rightarrow> char" where
  "repr_quote s = (if CHR 0x27 \<in> set s \<and> CHR 0x22 \<notin> set s then CHR 0x22 else CHR 0x27)"

definition repr_char :: "char \<Rightarrow> char \<Rightarrow> string" where
  "repr_char q c =
     (let n = (of_char c :: nat) in
      if c = q \<or> c = CHR 0x5C then [CHR 0x5C, c]
      else if n = 9 then [CHR 0x5C, CHR ''t'']
      else if n = 10 then [CHR 0x5C, CHR ''n'']
      else if n = 13 then [CHR 0x5C, CHR ''r'']
      else if n < 32 \<or> n = 127 then [CHR 0x5C, CHR ''x'', hex_digit (n div 16), hex_digit (n mod 16)]
      else [c])"

definition repr_str :: "string \<Rightarrow> string" where
  "repr_str s = (let q = repr_quote s in q # concat (map (repr_char q) s) @ [q])"

primrec py_repr :: "json \<Rightarrow> string" where
  "py_repr JNull = ''None''"
| "py_repr (JBool b) = (if b then ''True'' else ''False'')"
| "py_repr (JNum n) = dec_int n"
| "py_repr (JStr s) = repr_str s"
| "py_repr (JArr xs) = ''['' @ join '', '' (map py_repr xs) @ '']''"
| "py_repr (JObj ps) =
     ''{'' @ join '', '' (map (\<lambda>p. repr_str (fst p) @ '': '' @ snd p) (map (map_prod id py_repr) ps)) @ ''}''"

text \<open>\<^verbatim>\<open>str(x)\<close>, also what an f-string puts for \<^verbatim>\<open>{x}\<close>.\<close>

definition py_str :: "json \<Rightarrow> string" where
  "py_str v = (case v of JStr s \<Rightarrow> s | _ \<Rightarrow> py_repr v)"

section \<open>Encoding to JSON text\<close>

text \<open>
  \<^verbatim>\<open>json.dumps\<close> with its default settings: separators \<^verbatim>\<open>", "\<close> and \<^verbatim>\<open>": "\<close>, and
  every character outside the printable ASCII range escaped.
\<close>

definition hex4 :: "nat \<Rightarrow> string" where
  "hex4 n = [hex_digit (n div 4096 mod 16), hex_digit (n div 256 mod 16),
             hex_digit (n div 16 mod 16), hex_digit (n mod 16)]"

definition escape_char :: "char \<Rightarrow> string" where
  "escape_char c =
     (let n = (of_char c :: nat) in
      if c = CHR 0x22 then [CHR 0x5C, CHR 0x22]
      else if c = CHR 0x5C then [CHR 0x5C, CHR 0x5C]
      else if n = 8 then [CHR 0x5C, CHR ''b'']
      else if n = 12 then [CHR 0x5C, CHR ''f'']
      else if n = 10 then [CHR 0x5C, CHR ''n'']
      else if n = 13 then [CHR 0x5C, CHR ''r'']
      else if n = 9 then [CHR 0x5C, CHR ''t'']
      else if n < 32 \<or> 126 < n then [CHR 0x5C, CHR ''u''] @ hex4 n
      else [c])"

definition dumps_str :: "string \<Rightarrow> string" where
  "dumps_str s = CHR 0x22 # concat (map escape_char s) @ [CHR 0x22]"

primrec json_dumps :: "json \<Rightarrow> string" where
  "json_dumps JNull = ''null''"
| "json_dumps (JBool b) = (if b then ''true'' else ''false'')"
| "json_dumps (JNum n) = dec_int n"
| "json_dumps (JStr s) = dumps_str s"
| "json_dumps (JArr xs) = ''['' @ join '', '' (map json_dumps xs) @ '']''"
| "json_dumps (JObj ps) =
     ''{'' @ join '', '' (map (\<lambda>p. dumps_str (fst p) @ '': '' @ snd p) (map (map_prod id json_dumps) ps)) @ ''}''"

section \<open>Decoding JSON text\<close>

text \<open>
  \<^verbatim>\<open>json.loads\<close>: a recursive-descent decoder over the text. Numbers with a fraction
  or an exponent, \<^verbatim>\<open>NaN\<close> and \<^verbatim>\<open>Infinity\<close> are floating point and are rejected here, as
  are \<^verbatim>\<open>\u\<close> escapes of code points above 255. Each call of the decoder spends one
  unit of fuel; \<open>json_loads\<close> starts with more fuel than the text has characters,
  and \<open>None\<close> stands for the exception \<^verbatim>\<open>json.loads\<close> raises. Python's limit on the
  depth of recursion is not modelled.
\<close>

definition is_ws :: "char \<Rightarrow> bool" where
  "is_ws c = (c = CHR '' '' \<or> c = CHR 0x09 \<or> c = CHR 0x0A \<or> c = CHR 0x0D)"

definition skip_ws :: "string \<Rightarrow> string" where
  "skip_ws s = dropWhile is_ws s"

definition hex_value :: "char \<Rightarrow> nat option" where
  "hex_value c =
     (let n = (of_char c :: nat) in
      if 48 \<le> n \<and> n \<le> 57 then Some (n - 48)
      else if 97 \<le> n \<and> n \<le> 102 then Some (n - 87)
      else if 65 \<le> n \<and> n \<le> 70 then Some (n - 55)
      else None)"

fun hex4_value :: "string \<Rightarrow> nat option" where
  "hex4_value [a, b, c, d] =
     (case (hex_value a, hex_value b, hex_value c, hex_value d) of
        (Some x, Some y, Some z, Some w) \<Rightarrow> Some (4096 * x + 256 * y + 16 * z + w)
      | _ \<Rightarrow> None)"
| "hex4_value s = None"

text \<open>The character a one-letter escape stands for.\<close>

definition unescape :: "char \<Rightarrow> char option" where
  "unescape e =
     (if e = CHR 0x22 then Some (CHR 0x22)
      else if e = CHR 0x5C then Some (CHR 0x5C)
      else if e = CHR ''/'' then Some (CHR ''/'')
      else if e = CHR ''b'' then Some (CHR 0x08)
      else if e = CHR ''f'' then Some (CHR 0x0C)
      else if e = CHR ''n'' then Some (CHR 0x0A)
      else if e = CHR ''r'' then Some (CHR 0x0D)
      else if e = CHR ''t'' then Some (CHR 0x09)
      else None)"

text \<open>
  The text of a string after its opening quote: the decoded string and what follows
  the closing quote. A control character inside a string is an error.
\<close>

fun scan_string :: "string \<Rightarrow> (string \<times> string) option" where
  "scan_string [] = None"
| "scan_string (c # cs) =
     (if c = CHR 0x22 then Some ([], cs)
      else if c = CHR 0x5C then
        (case cs of
           [] \<Rightarrow> None
         | e # es \<Rightarrow>
            if e = CHR ''u'' then
              (case hex4_value (take 4 es) of
                 None \<Rightarrow> None
               | Some n \<Rightarrow>
                  if n < 256
                  then map_option (\<lambda>p. (char_of n # fst p, snd p)) (scan_string (drop 4 es))
                  else None)
            else
              (case unescape e of
                 None \<Rightarrow> None
               | Some x \<Rightarrow> map_option (\<lambda>p. (x # fst p, snd p)) (scan_string es)))
      else if (of_char c :: nat) < 32 then None
      else map_option (\<lambda>p. (c # fst p, snd p)) (scan_string cs))"

definition digits_value :: "string \<Rightarrow> nat" where
  "digits_value ds = foldl (\<lambda>a c. 10 * a + (of_char c - 48)) 0 ds"

text \<open>What follows the integer part of a number when the number is a float.\<close>

definition is_float_tail :: "string \<Rightarrow> bool" where
  "is_float_tail s =
     (case s of
        [] \<Rightarrow> False
      | c # cs \<Rightarrow>
         if c = CHR ''.'' then (case cs of [] \<Rightarrow> False | x # xs \<Rightarrow> isdigit_char x)
         else if c = CHR ''e'' \<or> c = CHR ''E'' then
           (case cs of
              [] \<Rightarrow> False
            | x # xs \<Rightarrow>
               if x = CHR ''+'' \<or> x = CHR ''-''
               then (case xs of [] \<Rightarrow> False | y # ys \<Rightarrow> isdigit_char y)
               else isdigit_char x)
         else False)"

definition parse_number :: "string \<Rightarrow> (json \<times> string) option" where
  "parse_number s =
     (let neg = (take 1 s = ''-'');
          s1 = (if neg then drop 1 s else s);
          ds = (if take 1 s1 = ''0'' then ''0'' else takeWhile isdigit_char s1);
          rest = drop (length ds) s1
      in if ds = [] \<or> is_float_tail rest then None
         else Some (JNum (if neg then - int (digits_value ds) else int (digits_value ds)), rest))"

text \<open>\<^verbatim>\<open>d[k] = v\<close> on a dict: a key already there keeps its place and takes the value.\<close>

fun dict_set :: "string \<Rightarrow> json \<Rightarrow> (string \<times> json) list \<Rightarrow> (string \<times> json) list" where
  "dict_set k v [] = [(k, v)]"
| "dict_set k v (p # ps) = (if fst p = k then (k, v) # ps else p # dict_set k v ps)"

fun parse_value :: "nat \<Rightarrow> string \<Rightarrow> (json \<times> string) option"
  and parse_elements :: "nat \<Rightarrow> string \<Rightarrow> json list \<Rightarrow> (json list \<times> string) option"
  and parse_members ::
    "nat \<Rightarrow> string \<Rightarrow> (string \<times> json) list \<Rightarrow> ((string \<times> json) list \<times> string) option"
where
  "parse_value 0 s = None"
| "parse_value (Suc n) s =
     (case s of
        [] \<Rightarrow> None
      | c # cs \<Rightarrow>
         if c = CHR 0x22 then map_option (\<lambda>p. (JStr (fst p), snd p)) (scan_string cs)
         else if c = CHR ''{'' then
           (case skip_ws cs of
              [] \<Rightarrow> None
            | x # xs \<Rightarrow>
               if x = CHR ''}'' then Some (JObj [], xs)
               else map_option (\<lambda>p. (JObj (fst p), snd p)) (parse_members n (x # xs) []))
         else if c = CHR ''['' then
           (case skip_ws cs of
              [] \<Rightarrow> None
            | x # xs \<Rightarrow>
               if x = CHR '']'' then Some (JArr [], xs)
               else map_option (\<lambda>p. (JArr (fst p), snd p)) (parse_elements n (x # xs) []))
         else if take 4 s = ''null'' then Some (JNull, drop 4 s)
         else if take 4 s = ''true'' then Some (JBool True, drop 4 s)
         else if take 5 s = ''false'' then Some (JBool False, drop 5 s)
         else parse_number s)"
| "parse_elements 0 s acc = None"
| "parse_elements (Suc n) s acc =
     (case parse_value n s of
        None \<Rightarrow> None
      | Some (v, rest) \<Rightarrow>
         (case skip_ws rest of
            [] \<Rightarrow> None
          | x # xs \<Rightarrow>
             if x = CHR '']'' then Some (acc @ [v], xs)
             else if x = CHR '','' then parse_elements n (skip_ws xs) (acc @ [v])
             else None))"
| "parse_members 0 s acc = None"
| "parse_members (Suc n) s acc =
     (case s of
        [] \<Rightarrow> None
      | q # after_quote \<Rightarrow>
         if q \<noteq> CHR 0x22 then None
         else
          (case scan_string after_quote of
             None \<Rightarrow> None
           | Some (k, rest) \<Rightarrow>
              (case skip_ws rest of
                 [] \<Rightarrow> None
               | colon # after_colon \<Rightarrow>
                  if colon \<noteq> CHR '':'' then None
                  else
                   (case parse_value n (skip_ws after_colon) of
                      None \<Rightarrow> None
                    | Some (v, rest') \<Rightarrow>
                       (case skip_ws rest' of
                          [] \<Rightarrow> None
                        | x # xs \<Rightarrow>
                           if x = CHR ''}'' then Some (dict_set k v acc, xs)
                           else if x = CHR '','' then parse_members n (skip_ws xs) (dict_set k v acc)
                           else None)))))"

definition json_loads :: "string \<Rightarrow> json option" where
  "json_loads s =
     (case parse_value (Suc (length s)) (skip_ws s) of
        None \<Rightarrow> None
      | Some (v, rest) \<Rightarrow> if skip_ws rest = [] then Some v else None)"

text \<open>
  A value as a Python object: in every dict a repeated key keeps its first place and
  its last value. A value that came out of \<^verbatim>\<open>request.get_json()\<close> has no repeated
  key and is its own normal form.
\<close>

primrec normalise :: "json \<Rightarrow> json" where
  "normalise JNull = JNull"
| "normalise (JBool b) = JBool b"
| "normalise (JNum n) = JNum n"
| "normalise (JStr s) = JStr s"
| "normalise (JArr xs) = JArr (map normalise xs)"
| "normalise (JObj ps) =
     JObj (foldl (\<lambda>acc p. dict_set (fst p) (snd p) acc) [] (map (map_prod id normalise) ps))"

text \<open>
  For the proofs about the decoder: what may follow an encoded value inside an
  encoded array or object, and the text of one member of an encoded object.
\<close>

definition delimited :: "string \<Rightarrow> bool" where
  "delimited rest = (case rest of [] \<Rightarrow> True | c # cs \<Rightarrow> c = CHR '','' \<or> c = CHR '']'' \<or> c = CHR ''}'')"

text \<open>How an encoded value starts.\<close>

definition value_start :: "char \<Rightarrow> bool" where
  "value_start c =
     (c = CHR 0x22 \<or> c = CHR ''{'' \<or> c = CHR ''['' \<or> c = CHR ''n'' \<or> c = CHR ''t'' \<or>
      c = CHR ''f'' \<or> c = CHR ''-'' \<or> isdigit_char c)"

definition member_text :: "string \<times> json \<Rightarrow> string" where
  "member_text p = dumps_str (fst p) @ '': '' @ json_dumps (snd p)"

section \<open>The shipment store\<close>

text \<open>
  One row of the table \<^verbatim>\<open>shippo_tracking\<close>. Every column but \<^verbatim>\<open>id\<close> has TEXT
  affinity, so a cell holds NULL or a text; \<^verbatim>\<open>transaction_id\<close> is NOT NULL. The
  table is the list of its rows in the order of insertion.
\<close>

record row =
  row_id :: int
  transaction_id :: string
  tracking_number :: "string option"
  carrier :: "string option"
  status :: "string option"
  status_details :: "string option"
  metadata :: "string option"
  label_url :: "string option"
  tracking_url :: "string option"
  eta :: "string option"
  to_name :: "string option"
  to_city :: "string option"
  to_state :: "string option"
  to_zip :: "string option"
  to_country :: "string option"
  from_city :: "string option"
  from_state :: "string option"
  from_zip :: "string option"
  from_country :: "string option"
  service_name :: "string option"
  service_token :: "string option"
  tracking_history :: "string option"
  created_at :: "string option"
  updated_at :: "string option"
  status_date :: "string option"
  delivered_at :: "string option"

type_synonym store = "row list"

text \<open>
  Binding a Python value to a statement parameter: \<^verbatim>\<open>None\<close>, \<^verbatim>\<open>str\<close> and \<^verbatim>\<open>int\<close>
  (with \<^verbatim>\<open>bool\<close>) are supported, an \<^verbatim>\<open>int\<close> has to fit 64 bits, a list or a dict is
  refused. A bound integer stored in, or compared with, a TEXT column becomes its
  decimal text.
\<close>

fun bind_error :: "json \<Rightarrow> error option" where
  "bind_error (JArr xs) = Some InterfaceError"
| "bind_error (JObj ps) = Some InterfaceError"
| "bind_error (JNum n) = (if - (2 ^ 63) \<le> n \<and> n < 2 ^ 63 then None else Some OverflowError)"
| "bind_error v = None"

fun first_error :: "json list \<Rightarrow> error option" where
  "first_error [] = None"
| "first_error (p # ps) = (case bind_error p of Some e \<Rightarrow> Some e | None \<Rightarrow> first_error ps)"

fun sql_text :: "json \<Rightarrow> string option" where
  "sql_text JNull = None"
| "sql_text (JBool b) = Some (if b then ''1'' else ''0'')"
| "sql_text (JNum n) = Some (dec_int n)"
| "sql_text (JStr s) = Some s"
| "sql_text (JArr xs) = None"
| "sql_text (JObj ps) = None"

text \<open>SQL's \<^verbatim>\<open>COALESCE(a, b)\<close>.\<close>

definition coalesce :: "'a option \<Rightarrow> 'a option \<Rightarrow> 'a option" where
  "coalesce a b = (case a of None \<Rightarrow> b | Some x \<Rightarrow> Some x)"

text \<open>
  The \<^verbatim>\<open>id\<close> of an inserted row: larger than every \<^verbatim>\<open>id\<close> of the table. (SQLite's
  AUTOINCREMENT may skip values; only freshness is used.)
\<close>

definition next_id :: "store \<Rightarrow> int" where
  "next_id conn = fold max (map row_id conn) 0 + 1"

definition blank_row :: "int \<Rightarrow> string \<Rightarrow> row" where
  "blank_row i t =
     \<lparr>row_id = i, transaction_id = t, tracking_number = None, carrier = None,
      status = None, status_details = None, metadata = None, label_url = None,
      tracking_url = None, eta = None, to_name = None, to_city = None, to_state = None,
      to_zip = None, to_country = None, from_city = None, from_state = None,
      from_zip = None, from_country = None, service_name = None, service_token = None,
      tracking_history = None, created_at = None, updated_at = None, status_date = None,
      delivered_at = None\<rparr>"

section \<open>Event reconciler\<close>

text \<open>
  Every handler takes the reading \<open>now\<close> of \<^verbatim>\<open>CURRENT_TIMESTAMP\<close> at the call and
  the table, and returns the table as committed, or the exception it raises; a
  handler that raises has changed nothing.
\<close>

text \<open>
  The statement of \<^verbatim>\<open>handle_transaction_created\<close>:
  \<^verbatim>\<open>INSERT ... ON CONFLICT(transaction_id) DO UPDATE SET ...\<close> with its nine parameters.
\<close>

definition upsert_created ::
  "string \<Rightarrow> store \<Rightarrow> json \<Rightarrow> json \<Rightarrow> json \<Rightarrow> json \<Rightarrow> json \<Rightarrow> json \<Rightarrow> json \<Rightarrow> json \<Rightarrow> json
     \<Rightarrow> error + store" where
  "upsert_created now conn p_transaction_id p_tracking_number p_carrier p_status p_metadata
       p_label_url p_tracking_url p_eta p_created_at =
     (case first_error [p_transaction_id, p_tracking_number, p_carrier, p_status, p_metadata,
                        p_label_url, p_tracking_url, p_eta, p_created_at] of
        Some e \<Rightarrow> Inl e
      | None \<Rightarrow>
         (case sql_text p_transaction_id of
            None \<Rightarrow> Inl IntegrityError
          | Some t \<Rightarrow>
             if list_ex (\<lambda>r. transaction_id r = t) conn
             then Inr (map (\<lambda>r. if transaction_id r = t
                              then r\<lparr>tracking_number := sql_text p_tracking_number,
                                     status := sql_text p_status,
                                     metadata := coalesce (sql_text p_metadata) (metadata r),
                                     label_url := coalesce (sql_text p_label_url) (label_url r),
                                     tracking_url := coalesce (sql_text p_tracking_url) (tracking_url r),
                                     eta := coalesce (sql_text p_eta) (eta r),
                                     updated_at := Some now\<rparr>
                              else r) conn)
             else Inr (conn @ [(blank_row (next_id conn) t)
                                 \<lparr>tracking_number := sql_text p_tracking_number,
                                  carrier := sql_text p_carrier,
                                  status := sql_text p_status,
                                  metadata := sql_text p_metadata,
                                  label_url := sql_text p_label_url,
                                  tracking_url := sql_text p_tracking_url,
                                  eta := sql_text p_eta,
                                  created_at := sql_text p_created_at,
                                  updated_at := Some now\<rparr>])))"

definition handle_transaction_created :: "string \<Rightarrow> store \<Rightarrow> json \<Rightarrow> error + store" where
  "handle_transaction_created now conn data =
     (case data of
        JObj d \<Rightarrow>
          (let txn = get d ''object_id'';
               tn = get d ''tracking_number''
           in case detect_carrier tn of
                Inl e \<Rightarrow> Inl e
              | Inr tag \<Rightarrow>
                  upsert_created now conn txn tn (JStr tag)
                    (get_default d ''tracking_status'' (JStr ''PRE_TRANSIT''))
                    (get d ''metadata'')
                    (get d ''label_url'')
                    (get d ''tracking_url_provider'')
                    (get d ''eta'')
                    (get d ''object_created''))
      | _ \<Rightarrow> Inl AttributeError)"

definition handle_transaction_updated :: "string \<Rightarrow> store \<Rightarrow> json \<Rightarrow> error + store" where
  "handle_transaction_updated now conn data =
     (case data of
        JObj d \<Rightarrow>
          (let txn = get d ''object_id'';
               tn = get d ''tracking_number'';
               st = get_default d ''tracking_status'' (JStr ''UNKNOWN'')
           in case first_error [tn, st, get d ''eta'', txn] of
                Some e \<Rightarrow> Inl e
              | None \<Rightarrow>
                  if length (filter (\<lambda>r. Some (transaction_id r) = sql_text txn) conn) = 0
                  then handle_transaction_created now conn data
                  else Inr (map (\<lambda>r. if Some (transaction_id r) = sql_text txn
                                   then r\<lparr>tracking_number := coalesce (sql_text tn) (tracking_number r),
                                          status := sql_text st,
                                          eta := coalesce (sql_text (get d ''eta'')) (eta r),
                                          updated_at := Some now\<rparr>
                                   else r) conn))
      | _ \<Rightarrow> Inl AttributeError)"


text \<open>
  \<^verbatim>\<open>handle_track_updated\<close>. \<open>field x k\<close> is \<^verbatim>\<open>x.get(k)\<close> once \<open>x\<close> is known to be a
  dict; on anything else \<^verbatim>\<open>x.get\<close> raises \<^verbatim>\<open>AttributeError\<close>, which the handler
  meets when it builds the parameters of its statement.
\<close>

definition is_dict :: "json \<Rightarrow> bool" where
  "is_dict x = (case x of JObj t \<Rightarrow> True | _ \<Rightarrow> False)"

definition field :: "json \<Rightarrow> string \<Rightarrow> json" where
  "field x k = (case x of JObj t \<Rightarrow> get t k | _ \<Rightarrow> JNull)"

text \<open>
  The lookup of the existing record: by transaction id when the payload has a true
  one, by tracking number otherwise; \<^verbatim>\<open>fetchone\<close> takes the first row found.
\<close>

definition select_existing :: "store \<Rightarrow> json \<Rightarrow> json \<Rightarrow> error + row option" where
  "select_existing conn txn tn =
     (if truthy txn
      then (case bind_error txn of
              Some e \<Rightarrow> Inl e
            | None \<Rightarrow> Inr (find (\<lambda>r. Some (transaction_id r) = sql_text txn) conn))
      else (case bind_error tn of
              Some e \<Rightarrow> Inl e
            | None \<Rightarrow> Inr (find (\<lambda>r. tracking_number r \<noteq> None \<and> tracking_number r = sql_text tn) conn)))"

text \<open>\<^verbatim>\<open>(data.get('carrier') or detect_carrier(tracking_number)).upper()\<close>\<close>

definition track_carrier :: "(string \<times> json) list \<Rightarrow> json \<Rightarrow> error + string" where
  "track_carrier d tn =
     (if truthy (get d ''carrier'')
      then (case get d ''carrier'' of JStr s \<Rightarrow> Inr (upper s) | _ \<Rightarrow> Inl AttributeError)
      else (case detect_carrier tn of Inl e \<Rightarrow> Inl e | Inr tag \<Rightarrow> Inr (upper tag)))"

text \<open>The status and the delivery date read from the nested \<^verbatim>\<open>tracking_status\<close>.\<close>

definition track_status :: "json \<Rightarrow> json" where
  "track_status ts =
     (case ts of JObj t \<Rightarrow> get_default t ''status'' (JStr ''UNKNOWN'') | _ \<Rightarrow> JStr (py_str ts))"

definition track_delivered_at :: "json \<Rightarrow> json" where
  "track_delivered_at ts =
     (if track_status ts = JStr ''DELIVERED''
      then (case ts of JObj t \<Rightarrow> get t ''status_date'' | _ \<Rightarrow> JNull)
      else JNull)"

definition handle_track_updated :: "string \<Rightarrow> store \<Rightarrow> json \<Rightarrow> error + store" where
  "handle_track_updated now conn data =
     (case data of
        JObj d \<Rightarrow>
          (let tn = get d ''tracking_number'';
               txn = get d ''transaction'';
               address_to = get_default d ''address_to'' (JObj []);
               address_from = get_default d ''address_from'' (JObj []);
               ts = get_default d ''tracking_status'' (JObj []);
               service = get_default d ''servicelevel'' (JObj [])
           in case select_existing conn txn tn of
                Inl e \<Rightarrow> Inl e
              | Inr existing \<Rightarrow>
                 (case track_carrier d tn of
                    Inl e \<Rightarrow> Inl e
                  | Inr tag \<Rightarrow>
                     if \<not> (is_dict address_to \<and> is_dict address_from \<and> is_dict service)
                     then Inl AttributeError
                     else
                      (let history = JStr (json_dumps (get_default d ''tracking_history'' (JArr [])));
                           delivered = track_delivered_at ts
                       in case existing of
                            Some ex \<Rightarrow>
                              (case first_error
                                      [tn, JStr tag, track_status ts, field ts ''status_details'',
                                       field ts ''status_date'', get d ''eta'',
                                       field address_to ''name'', field address_to ''city'',
                                       field address_to ''state'', field address_to ''zip'',
                                       field address_to ''country'', field address_from ''city'',
                                       field address_from ''state'', field address_from ''zip'',
                                       field address_from ''country'', field service ''name'',
                                       field service ''token'', history, delivered] of
                                 Some e \<Rightarrow> Inl e
                               | None \<Rightarrow>
                                  Inr (map (\<lambda>r. if row_id r = row_id ex
                                         then r\<lparr>tracking_number := coalesce (sql_text tn) (tracking_number r),
                                                carrier := Some tag,
                                                status := sql_text (track_status ts),
                                                status_details := sql_text (field ts ''status_details''),
                                                status_date := sql_text (field ts ''status_date''),
                                                eta := coalesce (sql_text (get d ''eta'')) (eta r),
                                                to_name := coalesce (sql_text (field address_to ''name'')) (to_name r),
                                                to_city := sql_text (field address_to ''city''),
                                                to_state := sql_text (field address_to ''state''),
                                                to_zip := sql_text (field address_to ''zip''),
                                                to_country := sql_text (field address_to ''country''),
                                                from_city := sql_text (field address_from ''city''),
                                                from_state := sql_text (field address_from ''state''),
                                                from_zip := sql_text (field address_from ''zip''),
                                                from_country := sql_text (field address_from ''country''),
                                                service_name := sql_text (field service ''name''),
                                                service_token := sql_text (field service ''token''),
                                                tracking_history := sql_text history,
                                                delivered_at := coalesce (sql_text delivered) (delivered_at r),
                                                updated_at := Some now\<rparr>
                                         else r) conn))
                          | None \<Rightarrow>
                              (let new_id = (if truthy txn then txn else JStr (''track_'' @ py_str tn))
                               in case first_error
                                      [new_id, tn, JStr tag, track_status ts, field ts ''status_details'',
                                       field ts ''status_date'', get d ''eta'',
                                       field address_to ''city'',
                                       field address_to ''state'', field address_to ''zip'',
                                       field address_to ''country'', field address_from ''city'',
                                       field address_from ''state'', field address_from ''zip'',
                                       field address_from ''country'', field service ''name'',
                                       field service ''token'', history, delivered] of
                                 Some e \<Rightarrow> Inl e
                               | None \<Rightarrow>
                                  (case sql_text new_id of
                                     None \<Rightarrow> Inl IntegrityError
                                   | Some t \<Rightarrow>
                                      if list_ex (\<lambda>r. transaction_id r = t) conn
                                      then Inl IntegrityError
                                      else Inr (conn @ [(blank_row (next_id conn) t)
                                         \<lparr>tracking_number := sql_text tn,
                                          carrier := Some tag,
                                          status := sql_text (track_status ts),
                                          status_details := sql_text (field ts ''status_details''),
                                          status_date := sql_text (field ts ''status_date''),
                                          eta := sql_text (get d ''eta''),
                                          to_city := sql_text (field address_to ''city''),
                                          to_state := sql_text (field address_to ''state''),
                                          to_zip := sql_text (field address_to ''zip''),
                                          to_country := sql_text (field address_to ''country''),
                                          from_city := sql_text (field address_from ''city''),
                                          from_state := sql_text (field address_from ''state''),
                                          from_zip := sql_text (field address_from ''zip''),
                                          from_country := sql_text (field address_from ''country''),
                                          service_name := sql_text (field service ''name''),
                                          service_token := sql_text (field service ''token''),
                                          tracking_history := sql_text history,
                                          delivered_at := sql_text delivered,
                                          created_at := Some now,
                                          updated_at := Some now\<rparr>]))))))
      | _ \<Rightarrow> Inl AttributeError)"

section \<open>Sequences of events and what they supply\<close>

text \<open>
  A sequence of \<^verbatim>\<open>transaction_created\<close> events, each with the clock reading of its
  call, applied in order; and the same payload replayed at a list of clock readings.
\<close>

fun run_created :: "store \<Rightarrow> (string \<times> json) list \<Rightarrow> error + store" where
  "run_created conn [] = Inr conn"
| "run_created conn (ev # evs) =
     (case handle_transaction_created (fst ev) conn (snd ev) of
        Inl e \<Rightarrow> Inl e
      | Inr conn' \<Rightarrow> run_created conn' evs)"

definition replay_created :: "store \<Rightarrow> string list \<Rightarrow> json \<Rightarrow> error + store" where
  "replay_created conn clocks data = run_created conn (map (\<lambda>now. (now, data)) clocks)"

text \<open>The value a payload supplies under a key, as the store receives it.\<close>

definition supplied :: "string \<Rightarrow> json \<Rightarrow> string option" where
  "supplied k data = (case data of JObj d \<Rightarrow> sql_text (get d k) | _ \<Rightarrow> None)"

definition find_transaction :: "string \<Rightarrow> store \<Rightarrow> row option" where
  "find_transaction t conn = find (\<lambda>r. transaction_id r = t) conn"

text \<open>The value of a column in the record of a transaction, NULL when there is no record.\<close>

definition stored :: "(row \<Rightarrow> 'a option) \<Rightarrow> string \<Rightarrow> store \<Rightarrow> 'a option" where
  "stored col t conn = (case find_transaction t conn of None \<Rightarrow> None | Some r \<Rightarrow> col r)"

text \<open>
  The first and the last non-null value of a list of supplied values, \<open>prior\<close>
  when every one is null.
\<close>

definition first_non_null :: "'a option \<Rightarrow> 'a option list \<Rightarrow> 'a option" where
  "first_non_null prior xs = (case filter (\<lambda>x. x \<noteq> None) xs of [] \<Rightarrow> prior | y # ys \<Rightarrow> y)"

definition last_non_null :: "'a option \<Rightarrow> 'a option list \<Rightarrow> 'a option" where
  "last_non_null prior xs = (case filter (\<lambda>x. x \<noteq> None) xs of [] \<Rightarrow> prior | y # ys \<Rightarrow> last (y # ys))"

text \<open>A row without its \<^verbatim>\<open>updated_at\<close>.\<close>

definition forget_updated_at :: "row \<Rightarrow> row" where
  "forget_updated_at r = r\<lparr>updated_at := None\<rparr>"

text \<open>
  What a \<^verbatim>\<open>track_updated\<close> payload supplies: the status and the delivery date the
  handler reads from it, and the history it carries.
\<close>

definition supplied_delivered_at :: "json \<Rightarrow> string option" where
  "supplied_delivered_at data =
     (case data of
        JObj d \<Rightarrow> sql_text (track_delivered_at (get_default d ''tracking_status'' (JObj [])))
      | _ \<Rightarrow> None)"
definition supplied_status :: "json \<Rightarrow> json" where
  "supplied_status data =
     (case data of
        JObj d \<Rightarrow> track_status (get_default d ''tracking_status'' (JObj []))
      | _ \<Rightarrow> JNull)"

definition supplied_history :: "json \<Rightarrow> json" where
  "supplied_history data = (case data of JObj d \<Rightarrow> get_default d ''tracking_history'' (JArr []) | _ \<Rightarrow> JArr [])"

definition supplied_status_date :: "json \<Rightarrow> string option" where
  "supplied_status_date data =
     (case data of
        JObj d \<Rightarrow> sql_text (field (get_default d ''tracking_status'' (JObj [])) ''status_date'')
      | _ \<Rightarrow> None)"

text \<open>
  The record a \<^verbatim>\<open>track_updated\<close> call updates: the lookup's first row, none when the
  lookup finds nothing or raises; the UPDATE reaches the rows that have its \<^verbatim>\<open>id\<close>.
\<close>

definition track_target :: "store \<Rightarrow> json \<Rightarrow> row option" where
  "track_target conn data =
     (case data of
        JObj d \<Rightarrow>
          (case select_existing conn (get d ''transaction'') (get d ''tracking_number'') of
             Inl e \<Rightarrow> None
           | Inr existing \<Rightarrow> existing)
      | _ \<Rightarrow> None)"

definition updated_by :: "store \<Rightarrow> json \<Rightarrow> row \<Rightarrow> bool" where
  "updated_by conn data r =
     (case track_target conn data of None \<Rightarrow> False | Some ex \<Rightarrow> row_id r = row_id ex)"

section \<open>Example stores and events\<close>

text \<open>The store an application returns, empty when it raises.\<close>

definition the_store :: "error + store \<Rightarrow> store" where
  "the_store x = (case x of Inl e \<Rightarrow> [] | Inr c \<Rightarrow> c)"

definition example_created :: "(string \<times> json) list" where
  "example_created =
     [(''2024-01-01 00:00:00'',
       JObj [(''object_id'', JStr ''tx1''), (''tracking_number'', JStr ''1234567890''),
             (''label_url'', JStr ''https://a''), (''eta'', JStr ''2024-01-05'')]),
      (''2024-01-01 00:00:09'',
       JObj [(''object_id'', JStr ''tx1''), (''tracking_number'', JStr ''1234567890''),
             (''label_url'', JStr ''https://b'')])]"

definition example_update :: json where
  "example_update =
     JObj [(''object_id'', JStr ''tx7''), (''tracking_status'', JStr ''TRANSIT''),
           (''tracking_number'', JStr ''1Z999AA10123456784'')]"

definition example_delivered :: "string \<Rightarrow> json" where
  "example_delivered date =
     JObj [(''transaction'', JStr ''tx1''), (''tracking_number'', JStr ''1234567890''),
           (''tracking_status'', JObj [(''status'', JStr ''DELIVERED''), (''status_date'', JStr date)]),
           (''address_to'', JObj [(''city'', JStr ''Austin'')]),
           (''tracking_history'',
            JArr [JObj [(''status'', JStr ''PRE_TRANSIT'')], JObj [(''status'', JStr ''TRANSIT'')],
                  JObj [(''status'', JStr ''DELIVERED'')]])]"

definition example_delivered_store :: store where
  "example_delivered_store =
     the_store (handle_track_updated ''2024-01-05 10:00:07'' [] (example_delivered ''2024-01-05T10:00:00Z''))"

definition example_in_transit :: json where
  "example_in_transit =
     JObj [(''transaction'', JStr ''tx1''), (''tracking_number'', JStr ''1234567890''),
           (''tracking_status'', JObj [(''status'', JStr ''RETURNED''), (''status_date'', JStr ''2024-01-09T00:00:00Z'')])]"

section \<open>Webhook endpoint\<close>



section \<open>Query API: the shipment list\<close>

text \<open>
  \<^verbatim>\<open>int(s)\<close> on a query parameter: blanks around, an optional sign, decimal digits
  with single underscores between them. (The interpreter's limit on the number of
  digits is not modelled.)
\<close>

definition is_space :: "char \<Rightarrow> bool" where
  "is_space c = (let n = (of_char c :: nat) in (9 \<le> n \<and> n \<le> 13) \<or> (28 \<le> n \<and> n \<le> 32))"

definition strip :: "string \<Rightarrow> string" where
  "strip s = rev (dropWhile is_space (rev (dropWhile is_space s)))"

fun digit_groups :: "string \<Rightarrow> bool" where
  "digit_groups [] = False"
| "digit_groups [c] = isdigit_char c"
| "digit_groups (c # d # ds) =
     (isdigit_char c \<and> (if d = CHR ''_'' then digit_groups ds else digit_groups (d # ds)))"

definition py_int :: "string \<Rightarrow> error + int" where
  "py_int s =
     (let t = strip s;
          neg = (take 1 t = ''-'');
          body = (if take 1 t = ''-'' \<or> take 1 t = ''+'' then drop 1 t else t)
      in if digit_groups body
         then Inr ((if neg then - 1 else 1) * int (digits_value (filter (\<lambda>c. c \<noteq> CHR ''_'') body)))
         else Inl ValueError)"

text \<open>
  SQL comparisons as the WHERE clause needs them: a conjunction is true when every
  conjunct is true, a disjunction when some disjunct is, and a comparison with NULL
  is never true. Texts compare byte by byte; LIKE is case-insensitive on ASCII
  letters, with \<^verbatim>\<open>%\<close> for any run of characters and \<^verbatim>\<open>_\<close> for any one character.
\<close>

fun bytes_le :: "string \<Rightarrow> string \<Rightarrow> bool" where
  "bytes_le [] t = True"
| "bytes_le (a # as) [] = False"
| "bytes_le (a # as) (b # bs) =
     ((of_char a :: nat) < of_char b \<or> (a = b \<and> bytes_le as bs))"

definition sql_ge :: "string option \<Rightarrow> string option \<Rightarrow> bool" where
  "sql_ge a b = (case (a, b) of (Some x, Some y) \<Rightarrow> bytes_le y x | _ \<Rightarrow> False)"

definition sql_ne :: "string option \<Rightarrow> string \<Rightarrow> bool" where
  "sql_ne a t = (case a of Some x \<Rightarrow> x \<noteq> t | None \<Rightarrow> False)"

definition sql_eq :: "string option \<Rightarrow> string \<Rightarrow> bool" where
  "sql_eq a t = (case a of Some x \<Rightarrow> x = t | None \<Rightarrow> False)"

fun like :: "string \<Rightarrow> string \<Rightarrow> bool" where
  "like [] t = (t = [])"
| "like (p # ps) t =
     (if p = CHR ''%'' then
        (like ps t \<or> (case t of [] \<Rightarrow> False | c # cs \<Rightarrow> like (p # ps) cs))
      else
        (case t of
           [] \<Rightarrow> False
         | c # cs \<Rightarrow> (p = CHR ''_'' \<or> upper_char p = upper_char c) \<and> like ps cs))"

definition sql_like :: "string option \<Rightarrow> string \<Rightarrow> bool" where
  "sql_like a pattern = (case a of Some x \<Rightarrow> like pattern x | None \<Rightarrow> False)"

text \<open>
  \<^verbatim>\<open>ORDER BY created_at DESC\<close>, NULL last; rows with equal keys keep the order of the
  table (SQL leaves their order open). \<^verbatim>\<open>LIMIT n\<close> with a negative \<open>n\<close> is no limit.
\<close>

definition null_le :: "string option \<Rightarrow> string option \<Rightarrow> bool" where
  "null_le a b =
     (case a of None \<Rightarrow> True | Some x \<Rightarrow> (case b of None \<Rightarrow> False | Some y \<Rightarrow> bytes_le x y))"

fun insert_desc :: "row \<Rightarrow> row list \<Rightarrow> row list" where
  "insert_desc r [] = [r]"
| "insert_desc r (x # xs) =
     (if null_le (created_at x) (created_at r) then r # x # xs else x # insert_desc r xs)"

definition order_by_created_desc :: "row list \<Rightarrow> row list" where
  "order_by_created_desc rows = foldr insert_desc rows []"

definition sql_limit :: "int \<Rightarrow> 'a list \<Rightarrow> 'a list" where
  "sql_limit n xs = (if n < 0 then xs else take (nat n) xs)"

text \<open>The history of a listed shipment: decoded, the empty list when absent or undecodable.\<close>

definition decode_history :: "string option \<Rightarrow> json" where
  "decode_history h =
     (case h of
        None \<Rightarrow> JArr []
      | Some t \<Rightarrow>
         if t = [] then JArr []
         else (case json_loads t of None \<Rightarrow> JArr [] | Some v \<Rightarrow> v))"

text \<open>
  The WHERE clause of the list query: the time window, never a record whose status
  is \<^verbatim>\<open>ERROR\<close>, the status filter when there is one, the search when there is one.
\<close>

definition where_clause :: "string option \<Rightarrow> string option \<Rightarrow> string \<Rightarrow> row \<Rightarrow> bool" where
  "where_clause start status_filter search r =
     (sql_ge (created_at r) start \<and>
      sql_ne (status r) ''ERROR'' \<and>
      (case status_filter of None \<Rightarrow> True | Some s \<Rightarrow> sql_eq (status r) s) \<and>
      (search = [] \<or>
       sql_like (tracking_number r) (''%'' @ search @ ''%'') \<or>
       sql_like (metadata r) (''%'' @ search @ ''%'') \<or>
       sql_like (to_city r) (''%'' @ search @ ''%'') \<or>
       sql_like (carrier r) (''%'' @ search @ ''%'')))"

text \<open>
  \<^verbatim>\<open>get_shippo_shipments\<close>. \<open>window_start days\<close> is what SQLite computes for
  \<^verbatim>\<open>datetime('now', '-<days> days')\<close> at the time of the request. The result is the
  exception behind a 500 response, or the listed shipments, each a row with its
  history decoded.
\<close>

definition get_shippo_shipments ::
  "(int \<Rightarrow> string option) \<Rightarrow> store \<Rightarrow> string option \<Rightarrow> string option \<Rightarrow> string option
     \<Rightarrow> string option \<Rightarrow> error + (row \<times> json) list" where
  "get_shippo_shipments window_start conn status_arg search_arg days_arg limit_arg =
     (case (case days_arg of None \<Rightarrow> Inr 90 | Some s \<Rightarrow> py_int s) of
        Inl e \<Rightarrow> Inl e
      | Inr days \<Rightarrow>
         (case (case limit_arg of None \<Rightarrow> Inr 200 | Some s \<Rightarrow> py_int s) of
            Inl e \<Rightarrow> Inl e
          | Inr limit \<Rightarrow>
             (let search = (case search_arg of None \<Rightarrow> [] | Some s \<Rightarrow> s);
                  status_filter =
                    (case status_arg of
                       None \<Rightarrow> None
                     | Some s \<Rightarrow> if s \<noteq> [] \<and> upper s \<noteq> ''ALL'' then Some (upper s) else None)
              in case bind_error (JNum limit) of
                   Some e \<Rightarrow> Inl e
                 | None \<Rightarrow>
                    Inr (map (\<lambda>r. (r, decode_history (tracking_history r)))
                           (sql_limit limit
                              (order_by_created_desc
                                 (filter (where_clause (window_start days) status_filter search) conn)))))))"

section \<open>Records a payload is about, and example listings\<close>

text \<open>
  The record a \<^verbatim>\<open>track_updated\<close> payload is about: the one with its transaction id
  when it has a true one, with its tracking number otherwise.
\<close>

definition keyed_by :: "json \<Rightarrow> row \<Rightarrow> bool" where
  "keyed_by data r =
     (case data of
        JObj d \<Rightarrow>
          if truthy (get d ''transaction'')
          then Some (transaction_id r) = sql_text (get d ''transaction'')
          else tracking_number r = sql_text (get d ''tracking_number'')
      | _ \<Rightarrow> False)"

text \<open>The history of a record as the query API decodes it.\<close>

definition decoded_history :: "row \<Rightarrow> json" where
  "decoded_history r = decode_history (tracking_history r)"

definition example_error_store :: store where
  "example_error_store =
     the_store (run_created []
       [(''2024-03-01 09:00:00'',
         JObj [(''object_id'', JStr ''tx1''), (''tracking_number'', JStr ''1Z999AA10123456784''),
               (''object_created'', JStr ''2024-03-01 09:00:00'')]),
        (''2024-03-02 09:00:00'',
         JObj [(''object_id'', JStr ''tx2''), (''tracking_status'', JStr ''ERROR''),
               (''object_created'', JStr ''2024-03-02 09:00:00'')])])"

definition example_window :: "int \<Rightarrow> string option" where
  "example_window days = Some ''2024-01-01 00:00:00''"

text \<open>The shipments a query lists, none when it fails.\<close>

definition listed :: "error + (row \<times> json) list \<Rightarrow> (row \<times> json) list" where
  "listed x = (case x of Inl e \<Rightarrow> [] | Inr shipments \<Rightarrow> shipments)"

definition example_listing :: "(row \<times> json) list" where
  "example_listing =
     listed (get_shippo_shipments example_window example_error_store
               (Some ''all'') (Some []) (Some ''30'') None)"

section \<open>Properties of the classifier\<close>

lemma upper_char_idem: "upper_char (upper_char c) = upper_char c"
  by (auto simp: upper_char_def Let_def)

lemma upper_idem: "upper (upper s) = upper s"
  by (simp add: upper_def upper_char_idem)

lemma take1_nth0: "s \<noteq> [] \<Longrightarrow> (take 1 s = [c]) = (s ! 0 = c)"
  by (cases s) auto

text \<open>
  Claim C4, as amended. On every tracking number except an all-digit one of length
  at least 16 that starts with \<^verbatim>\<open>9\<close>, \<^verbatim>\<open>detect_carrier\<close> applies the six rules of
  the specification in the stated order, the first match winning, to the upper-cased
  number (so the \<^verbatim>\<open>US\<close> suffix of rule 4 is matched in either case). The
  examples \<^verbatim>\<open>1Z999AA10123456784\<close> (UPS), \<^verbatim>\<open>123456789012\<close> (FEDEX) and
  \<^verbatim>\<open>1234567890\<close> (DHL) classify as stated, \<^verbatim>\<open>EA123456789US\<close> is USPS, an empty or
  absent number gives UNKNOWN and a string matching no rule gives CARRIER.
\<close>

theorem detect_carrier_rule_order:
  assumes "\<not> (16 \<le> length s \<and> take 1 s = ''9'' \<and> isdigit s)"
  shows "detect_carrier (JStr s) = Inr (spec_classify (upper s)) \<and>
   detect_carrier (JStr ''1Z999AA10123456784'') = Inr ''UPS'' \<and>
   detect_carrier (JStr ''123456789012'') = Inr ''FEDEX'' \<and>
   detect_carrier (JStr ''EA123456789US'') = Inr ''USPS'' \<and>
   detect_carrier (JStr ''1234567890'') = Inr ''DHL'' \<and>
   detect_carrier (JStr []) = Inr ''UNKNOWN'' \<and>
   detect_carrier JNull = Inr ''UNKNOWN'' \<and>
   detect_carrier (JStr ''HELLO-42'') = Inr ''CARRIER''"
proof -
  have order: "detect_carrier (JStr s) = Inr (spec_classify (upper s))"
  proof (cases "s = []")
    case True
    then show ?thesis by (simp add: detect_carrier_def spec_classify_def upper_def)
  next
    case False
    then have ne: "upper s \<noteq> []" by (simp add: upper_def)
    have l: "16 \<le> length (upper s) \<Longrightarrow> (take 1 (upper s) = ''9'') = (upper s ! 0 = CHR ''9'')"
      using take1_nth0 [OF ne] by simp
    show ?thesis using False ne l
      by (auto simp: detect_carrier_def spec_classify_def spec_rule2_def spec_rule3_def
          spec_rule4_def spec_rule5_def upper_idem Let_def)
  qed
  have examples:
    "detect_carrier (JStr ''1Z999AA10123456784'') = Inr ''UPS'' \<and>
     detect_carrier (JStr ''123456789012'') = Inr ''FEDEX'' \<and>
     detect_carrier (JStr ''EA123456789US'') = Inr ''USPS'' \<and>
     detect_carrier (JStr ''1234567890'') = Inr ''DHL'' \<and>
     detect_carrier (JStr []) = Inr ''UNKNOWN'' \<and>
     detect_carrier JNull = Inr ''UNKNOWN'' \<and>
     detect_carrier (JStr ''HELLO-42'') = Inr ''CARRIER''"
    by code_simp
  from order examples show ?thesis by blast
qed

theorem detect_carrier_rule_order_witness:
  "\<not> (16 \<le> length ''ea123456789us'' \<and> take 1 ''ea123456789us'' = ''9'' \<and> isdigit ''ea123456789us'') \<and>
   upper ''ea123456789us'' = ''EA123456789US'' \<and>
   spec_classify (upper ''ea123456789us'') = ''USPS'' \<and>
   detect_carrier (JStr ''ea123456789us'') = Inr ''USPS''"
proof -
  have h: "\<not> (16 \<le> length ''ea123456789us'' \<and> take 1 ''ea123456789us'' = ''9'' \<and> isdigit ''ea123456789us'')"
    by simp
  have u: "upper ''ea123456789us'' = ''EA123456789US''"
    by code_simp
  have c: "spec_classify ''EA123456789US'' = ''USPS''"
    by code_simp
  from detect_carrier_rule_order [OF h] h u c show ?thesis
    by simp
qed

text \<open>
  Claim C4 as stated fails twice. With the rules as the specification words them,
  \<^verbatim>\<open>EA123456789us\<close> matches no rule (its last two characters are not \<^verbatim>\<open>US\<close>) and
  would be CARRIER; the classifier upper-cases the number first and gives USPS. And
  the claim gives USPS for \<^verbatim>\<open>9400111899223344556\<close>, which the classifier gives to
  FEDEX.
\<close>

theorem detect_carrier_counterexample:
  "spec_classify ''EA123456789us'' = ''CARRIER'' \<and>
   detect_carrier (JStr ''EA123456789us'') = Inr ''USPS'' \<and>
   detect_carrier (JStr ''9400111899223344556'') = Inr ''FEDEX'' \<and>
   detect_carrier (JStr ''9400111899223344556'') \<noteq> Inr ''USPS''"
  by code_simp

section \<open>Properties of \<^verbatim>\<open>handle_transaction_created\<close>\<close>

lemma coalesce_simps [simp]:
  "coalesce None b = b" "coalesce (Some x) b = Some x" "coalesce a (coalesce a b) = coalesce a b" "coalesce a None = a" "coalesce a a = a"
  by (auto simp: coalesce_def split: option.splits)

lemma last_non_null_Cons: "last_non_null prior (x # xs) = last_non_null (coalesce x prior) xs"
  by (cases x) (auto simp: last_non_null_def split: list.splits)

lemma last_non_null_Nil [simp]: "last_non_null prior [] = prior"
  by (simp add: last_non_null_def)

lemma find_map_upd:
  assumes "\<And>r. transaction_id (f r) = transaction_id r"
  shows "find (\<lambda>r. transaction_id r = t) (map (\<lambda>r. if transaction_id r = t then f r else r) conn)
         = map_option f (find (\<lambda>r. transaction_id r = t) conn)"
  using assms by (induction conn) auto

lemma find_None_iff_list_ex: "(find P xs = None) = (\<not> list_ex P xs)"
  by (induction xs) auto

lemma find_append_new: "\<not> list_ex P xs \<Longrightarrow> find P (xs @ [x]) = (if P x then Some x else None)"
  by (induction xs) auto

text \<open>One call of the upsert, seen from the record of the transaction.\<close>

lemma upsert_created_stored:
  assumes "upsert_created now conn p1 p2 p3 p4 p5 p6 p7 p8 p9 = Inr conn'"
  shows "\<exists>t r. sql_text p1 = Some t \<and> find_transaction t conn' = Some r \<and>
           metadata r = coalesce (sql_text p5) (stored metadata t conn) \<and>
           label_url r = coalesce (sql_text p6) (stored label_url t conn) \<and>
           tracking_url r = coalesce (sql_text p7) (stored tracking_url t conn) \<and>
           eta r = coalesce (sql_text p8) (stored eta t conn)"
proof -
  from assms obtain t where t: "sql_text p1 = Some t"
    by (auto simp: upsert_created_def split: option.splits)
  show ?thesis
  proof (cases "list_ex (\<lambda>r. transaction_id r = t) conn")
    case True
    then obtain r0 where r0: "find (\<lambda>r. transaction_id r = t) conn = Some r0"
      using find_None_iff_list_ex [of "\<lambda>r. transaction_id r = t" conn] by (cases "find (\<lambda>r. transaction_id r = t) conn") auto
    from assms t True show ?thesis
      by (auto simp: upsert_created_def find_transaction_def stored_def find_map_upd r0 split: option.splits)
  next
    case False
    then have "find (\<lambda>r. transaction_id r = t) conn = None"
      by (simp add: find_None_iff_list_ex)
    with assms t False show ?thesis
      by (auto simp: upsert_created_def find_transaction_def stored_def find_append_new blank_row_def split: option.splits)
  qed
qed


lemma created_stored:
  assumes "handle_transaction_created now conn data = Inr conn'"
  shows "\<exists>t r. supplied ''object_id'' data = Some t \<and> find_transaction t conn' = Some r \<and>
           metadata r = coalesce (supplied ''metadata'' data) (stored metadata t conn) \<and>
           label_url r = coalesce (supplied ''label_url'' data) (stored label_url t conn) \<and>
           tracking_url r = coalesce (supplied ''tracking_url_provider'' data) (stored tracking_url t conn) \<and>
           eta r = coalesce (supplied ''eta'' data) (stored eta t conn)"
proof -
  from assms obtain d where d: "data = JObj d"
    by (cases data) (auto simp: handle_transaction_created_def)
  from assms d obtain tag where
    "upsert_created now conn (get d ''object_id'') (get d ''tracking_number'') (JStr tag)
       (get_default d ''tracking_status'' (JStr ''PRE_TRANSIT'')) (get d ''metadata'')
       (get d ''label_url'') (get d ''tracking_url_provider'') (get d ''eta'')
       (get d ''object_created'') = Inr conn'"
    by (auto simp: handle_transaction_created_def Let_def split: sum.splits)
  from upsert_created_stored [OF this] d show ?thesis
    by (simp add: supplied_def)
qed

lemma run_created_stored:
  assumes step: "\<And>now conn data conn' t r. handle_transaction_created now conn data = Inr conn' \<Longrightarrow>
             supplied ''object_id'' data = Some t \<Longrightarrow> find_transaction t conn' = Some r \<Longrightarrow>
             col r = coalesce (supplied k data) (stored col t conn)"
    and run: "run_created conn evs = Inr conn'"
    and keys: "\<forall>ev\<in>set evs. supplied ''object_id'' (snd ev) = Some t"
  shows "stored col t conn' = last_non_null (stored col t conn) (map (\<lambda>ev. supplied k (snd ev)) evs)"
  using run keys
proof (induction evs arbitrary: conn)
  case Nil
  then show ?case by simp
next
  case (Cons ev evs)
  from Cons.prems(1) obtain c1 where c1: "handle_transaction_created (fst ev) conn (snd ev) = Inr c1"
    and rest: "run_created c1 evs = Inr conn'"
    by (auto split: sum.splits)
  from created_stored [OF c1] Cons.prems(2) obtain r where r: "find_transaction t c1 = Some r"
    by auto
  from step [OF c1 _ r] Cons.prems(2)
  have "col r = coalesce (supplied k (snd ev)) (stored col t conn)" by simp
  with r have "stored col t c1 = coalesce (supplied k (snd ev)) (stored col t conn)"
    by (simp add: stored_def)
  moreover from Cons.IH [OF rest] Cons.prems(2)
  have "stored col t conn' = last_non_null (stored col t c1) (map (\<lambda>ev. supplied k (snd ev)) evs)"
    by simp
  ultimately show ?case by (simp add: last_non_null_Cons)
qed

lemma run_created_exists:
  assumes "run_created conn evs = Inr conn'" "evs \<noteq> []"
    "\<forall>ev\<in>set evs. supplied ''object_id'' (snd ev) = Some t"
  shows "\<exists>r. find_transaction t conn' = Some r"
  using assms
proof (induction evs arbitrary: conn)
  case Nil
  then show ?case by simp
next
  case (Cons ev evs)
  from Cons.prems(1) obtain c1 where c1: "handle_transaction_created (fst ev) conn (snd ev) = Inr c1"
    and rest: "run_created c1 evs = Inr conn'"
    by (auto split: sum.splits)
  show ?case
  proof (cases "evs = []")
    case True
    with rest created_stored [OF c1] Cons.prems(3) show ?thesis by auto
  next
    case False
    from Cons.IH [OF rest False] Cons.prems(3) show ?thesis by simp
  qed
qed

text \<open>
  Claim C1, as amended. For every sequence of \<^verbatim>\<open>transaction_created\<close> events with the
  same transaction id, each applied by \<^verbatim>\<open>handle_transaction_created\<close> without raising,
  the record of that transaction exists afterwards and its \<^verbatim>\<open>label_url\<close>,
  \<^verbatim>\<open>tracking_url\<close>, \<^verbatim>\<open>eta\<close> and \<^verbatim>\<open>metadata\<close> each equal the last non-null value
  supplied for that field across the sequence, and the value stored before the
  sequence (null when there was no record) when every supplied value is null.
\<close>

theorem created_last_non_null:
  assumes "run_created conn evs = Inr conn'" "evs \<noteq> []"
    "\<forall>ev\<in>set evs. supplied ''object_id'' (snd ev) = Some t"
  shows "\<exists>r. find_transaction t conn' = Some r \<and>
     label_url r = last_non_null (stored label_url t conn) (map (\<lambda>ev. supplied ''label_url'' (snd ev)) evs) \<and>
     tracking_url r = last_non_null (stored tracking_url t conn) (map (\<lambda>ev. supplied ''tracking_url_provider'' (snd ev)) evs) \<and>
     eta r = last_non_null (stored eta t conn) (map (\<lambda>ev. supplied ''eta'' (snd ev)) evs) \<and>
     metadata r = last_non_null (stored metadata t conn) (map (\<lambda>ev. supplied ''metadata'' (snd ev)) evs)"
proof -
  from run_created_exists [OF assms] obtain r where r: "find_transaction t conn' = Some r" ..
  have "stored label_url t conn' = last_non_null (stored label_url t conn) (map (\<lambda>ev. supplied ''label_url'' (snd ev)) evs)"
    by (rule run_created_stored [OF _ assms(1) assms(3)]) (use created_stored in fastforce)
  moreover have "stored tracking_url t conn' = last_non_null (stored tracking_url t conn) (map (\<lambda>ev. supplied ''tracking_url_provider'' (snd ev)) evs)"
    by (rule run_created_stored [OF _ assms(1) assms(3)]) (use created_stored in fastforce)
  moreover have "stored eta t conn' = last_non_null (stored eta t conn) (map (\<lambda>ev. supplied ''eta'' (snd ev)) evs)"
    by (rule run_created_stored [OF _ assms(1) assms(3)]) (use created_stored in fastforce)
  moreover have "stored metadata t conn' = last_non_null (stored metadata t conn) (map (\<lambda>ev. supplied ''metadata'' (snd ev)) evs)"
    by (rule run_created_stored [OF _ assms(1) assms(3)]) (use created_stored in fastforce)
  ultimately show ?thesis using r by (simp add: stored_def)
qed


theorem created_last_non_null_witness:
  "run_created [] example_created = Inr (the_store (run_created [] example_created)) \<and>
   (\<exists>r. find_transaction ''tx1'' (the_store (run_created [] example_created)) = Some r \<and>
      label_url r = Some ''https://b'' \<and> eta r = Some ''2024-01-05'' \<and> tracking_url r = None)"
proof -
  have run: "run_created [] example_created = Inr (the_store (run_created [] example_created))"
    by code_simp
  have ne: "example_created \<noteq> []"
    by (simp add: example_created_def)
  have keys: "\<forall>ev\<in>set example_created. supplied ''object_id'' (snd ev) = Some ''tx1''"
    by (simp add: example_created_def supplied_def get_def get_default_def)
  have vals:
    "last_non_null (stored label_url ''tx1'' []) (map (\<lambda>ev. supplied ''label_url'' (snd ev)) example_created) = Some ''https://b''"
    "last_non_null (stored eta ''tx1'' []) (map (\<lambda>ev. supplied ''eta'' (snd ev)) example_created) = Some ''2024-01-05''"
    "last_non_null (stored tracking_url ''tx1'' []) (map (\<lambda>ev. supplied ''tracking_url_provider'' (snd ev)) example_created) = None"
    by (simp_all add: example_created_def supplied_def get_def get_default_def last_non_null_def
        stored_def find_transaction_def)
  from created_last_non_null [OF run ne keys] vals run show ?thesis
    by auto
qed

text \<open>
  Claim C1 as stated fails: two events for \<^verbatim>\<open>tx1\<close> supply the label URLs
  \<^verbatim>\<open>https://a\<close> and then \<^verbatim>\<open>https://b\<close>; the first non-null value is \<^verbatim>\<open>https://a\<close>,
  the record ends with \<^verbatim>\<open>https://b\<close>.
\<close>

theorem created_first_non_null_counterexample:
  "map_sum id (map label_url) (run_created [] example_created) = Inr [Some ''https://b''] \<and>
   first_non_null None (map (\<lambda>ev. supplied ''label_url'' (snd ev)) example_created) = Some ''https://a''"
  by code_simp

section \<open>Properties of \<^verbatim>\<open>handle_transaction_updated\<close>\<close>

lemma list_ex_map_upd:
  assumes "\<And>r. transaction_id (f r) = transaction_id r"
  shows "list_ex (\<lambda>r. transaction_id r = t) (map (\<lambda>r. if P r then f r else r) conn)
         = list_ex (\<lambda>r. transaction_id r = t) conn"
  using assms by (induction conn) auto

lemma created_record_exists:
  assumes "handle_transaction_created now conn data = Inr conn'"
  shows "\<exists>t. supplied ''object_id'' data = Some t \<and> list_ex (\<lambda>r. transaction_id r = t) conn'"
proof -
  from created_stored [OF assms] obtain t r where
    t: "supplied ''object_id'' data = Some t" and r: "find_transaction t conn' = Some r" by blast
  from r have "list_ex (\<lambda>r. transaction_id r = t) conn'"
    using find_None_iff_list_ex [of "\<lambda>r. transaction_id r = t" conn']
    by (simp add: find_transaction_def)
  with t show ?thesis by blast
qed

text \<open>
  Claim C3. For every payload, when \<^verbatim>\<open>handle_transaction_updated\<close> returns (also
  through its fallback to \<^verbatim>\<open>handle_transaction_created\<close>), the payload carries a
  transaction id and the store holds a record keyed by it.
\<close>

theorem updated_record_exists:
  assumes "handle_transaction_updated now conn data = Inr conn'"
  shows "\<exists>t. supplied ''object_id'' data = Some t \<and> list_ex (\<lambda>r. transaction_id r = t) conn'"
proof -
  from assms obtain d where d: "data = JObj d"
    by (cases data) (auto simp: handle_transaction_updated_def)
  show ?thesis
  proof (cases "filter (\<lambda>r. Some (transaction_id r) = sql_text (get d ''object_id'')) conn = []")
    case True
    with assms d have "handle_transaction_created now conn data = Inr conn'"
      by (auto simp: handle_transaction_updated_def Let_def split: option.splits)
    then show ?thesis by (rule created_record_exists)
  next
    case False
    then obtain r0 where r0: "r0 \<in> set conn" "Some (transaction_id r0) = sql_text (get d ''object_id'')"
      by (auto simp: filter_empty_conv)
    from assms d False have c': "conn' = map (\<lambda>r. if Some (transaction_id r) = sql_text (get d ''object_id'')
                                   then r\<lparr>tracking_number := coalesce (sql_text (get d ''tracking_number'')) (tracking_number r),
                                          status := sql_text (get_default d ''tracking_status'' (JStr ''UNKNOWN'')),
                                          eta := coalesce (sql_text (get d ''eta'')) (eta r),
                                          updated_at := Some now\<rparr>
                                   else r) conn"
      by (auto simp: handle_transaction_updated_def Let_def split: option.splits)
    have "list_ex (\<lambda>r. transaction_id r = transaction_id r0) conn'"
      unfolding c' using r0(1) by (subst list_ex_map_upd) (auto simp: list_ex_iff)
    with r0(2) [symmetric] d show ?thesis by (auto simp: supplied_def)
  qed
qed

theorem updated_record_exists_witness:
  "handle_transaction_updated ''2024-01-02 10:00:00'' [] example_update =
     Inr (the_store (handle_transaction_updated ''2024-01-02 10:00:00'' [] example_update)) \<and>
   supplied ''object_id'' example_update = Some ''tx7'' \<and>
   list_ex (\<lambda>r. transaction_id r = ''tx7'')
     (the_store (handle_transaction_updated ''2024-01-02 10:00:00'' [] example_update))"
proof -
  have run: "handle_transaction_updated ''2024-01-02 10:00:00'' [] example_update =
     Inr (the_store (handle_transaction_updated ''2024-01-02 10:00:00'' [] example_update))"
    by code_simp
  have key: "supplied ''object_id'' example_update = Some ''tx7''"
    by code_simp
  from updated_record_exists [OF run] key run show ?thesis
    by simp
qed

lemma first_error_None_iff: "(first_error ps = None) = (\<forall>p\<in>set ps. bind_error p = None)"
  by (induction ps) (auto split: option.splits)

lemma upsert_created_bindable:
  assumes "upsert_created now conn p1 p2 p3 p4 p5 p6 p7 p8 p9 = Inr conn'"
  shows "first_error [p1, p2, p3, p4, p5, p6, p7, p8, p9] = None"
proof (cases "first_error [p1, p2, p3, p4, p5, p6, p7, p8, p9]")
  case (Some e)
  with assms show ?thesis unfolding upsert_created_def by (simp del: first_error.simps)
qed simp

lemma first_error_created_imp:
  assumes "handle_transaction_created now conn (JObj d) = Inr conn'"
  shows "first_error [get d ''tracking_number'', get_default d ''tracking_status'' (JStr ''UNKNOWN''), get d ''eta'', get d ''object_id''] = None"
proof -
  have st: "bind_error (get_default d ''tracking_status'' (JStr ''PRE_TRANSIT'')) = None \<Longrightarrow>
        bind_error (get_default d ''tracking_status'' (JStr ''UNKNOWN'')) = None"
    by (auto simp: get_default_def split: option.splits)
  from assms obtain tag where
    "upsert_created now conn (get d ''object_id'') (get d ''tracking_number'') (JStr tag)
       (get_default d ''tracking_status'' (JStr ''PRE_TRANSIT'')) (get d ''metadata'')
       (get d ''label_url'') (get d ''tracking_url_provider'') (get d ''eta'')
       (get d ''object_created'') = Inr conn'"
    by (auto simp: handle_transaction_created_def Let_def split: sum.splits)
  from upsert_created_bindable [OF this] have "bind_error (get d ''tracking_number'') = None"
    "bind_error (get_default d ''tracking_status'' (JStr ''PRE_TRANSIT'')) = None"
    "bind_error (get d ''eta'') = None" "bind_error (get d ''object_id'') = None"
    unfolding first_error_None_iff by simp_all
  with st show ?thesis by simp
qed

lemma updated_unfold:
  "handle_transaction_updated now conn (JObj d) =
     (case first_error [get d ''tracking_number'', get_default d ''tracking_status'' (JStr ''UNKNOWN''),
                        get d ''eta'', get d ''object_id''] of
        Some e \<Rightarrow> Inl e
      | None \<Rightarrow>
          if filter (\<lambda>r. Some (transaction_id r) = sql_text (get d ''object_id'')) conn = []
          then handle_transaction_created now conn (JObj d)
          else Inr (map (\<lambda>r. if Some (transaction_id r) = sql_text (get d ''object_id'')
                           then r\<lparr>tracking_number := coalesce (sql_text (get d ''tracking_number'')) (tracking_number r),
                                  status := sql_text (get_default d ''tracking_status'' (JStr ''UNKNOWN'')),
                                  eta := coalesce (sql_text (get d ''eta'')) (eta r),
                                  updated_at := Some now\<rparr>
                           else r) conn))"
  unfolding handle_transaction_updated_def by (simp add: Let_def del: first_error.simps)

lemma updated_unknown_Inr:
  assumes "\<not> list_ex (\<lambda>r. Some (transaction_id r) = supplied ''object_id'' data) conn"
  shows "(handle_transaction_updated now conn data = Inr conn') = (handle_transaction_created now conn data = Inr conn')"
proof (cases data)
  case (JObj d)
  with assms have nomatch: "filter (\<lambda>r. Some (transaction_id r) = sql_text (get d ''object_id'')) conn = []"
    by (simp add: supplied_def filter_empty_conv list_ex_iff)
  show ?thesis
  proof (cases "first_error [get d ''tracking_number'', get_default d ''tracking_status'' (JStr ''UNKNOWN''),
                        get d ''eta'', get d ''object_id'']")
    case None
    with nomatch show ?thesis unfolding JObj updated_unfold by (simp del: first_error.simps)
  next
    case (Some e)
    then have "handle_transaction_created now conn (JObj d) \<noteq> Inr conn'"
      using first_error_created_imp [of now conn d conn'] by auto
    with Some show ?thesis unfolding JObj updated_unfold by (simp del: first_error.simps)
  qed
qed (simp_all add: handle_transaction_updated_def handle_transaction_created_def)

text \<open>
  Claim C6. For every payload whose transaction id has no record in the store,
  \<^verbatim>\<open>handle_transaction_updated\<close> returns exactly the store that
  \<^verbatim>\<open>handle_transaction_created\<close> returns for the same payload, clock reading and
  store, and raises exactly when \<^verbatim>\<open>handle_transaction_created\<close> raises.
\<close>

theorem updated_unknown_is_created:
  assumes "\<not> list_ex (\<lambda>r. Some (transaction_id r) = supplied ''object_id'' data) conn"
  shows "((handle_transaction_updated now conn data = Inr conn') =
          (handle_transaction_created now conn data = Inr conn')) \<and>
         isl (handle_transaction_updated now conn data) = isl (handle_transaction_created now conn data)"
proof -
  have "isl (handle_transaction_updated now conn data) = isl (handle_transaction_created now conn data)"
  proof (cases "handle_transaction_created now conn data")
    case (Inl e)
    have "handle_transaction_updated now conn data \<noteq> Inr c" for c
      using updated_unknown_Inr [OF assms, of now c] Inl by simp
    then have "isl (handle_transaction_updated now conn data)"
      by (cases "handle_transaction_updated now conn data") auto
    with Inl show ?thesis by simp
  next
    case (Inr c)
    with updated_unknown_Inr [OF assms, of now c] show ?thesis by simp
  qed
  with updated_unknown_Inr [OF assms, of now conn'] show ?thesis by simp
qed

theorem updated_unknown_is_created_witness:
  "\<not> list_ex (\<lambda>r. Some (transaction_id r) = supplied ''object_id'' example_update) [] \<and>
   handle_transaction_updated ''2024-01-02 10:00:00'' [] example_update =
   handle_transaction_created ''2024-01-02 10:00:00'' [] example_update \<and>
   \<not> isl (handle_transaction_updated ''2024-01-02 10:00:00'' [] example_update)"
proof -
  have no: "\<not> list_ex (\<lambda>r. Some (transaction_id r) = supplied ''object_id'' example_update) []"
    by simp
  have ok: "\<not> isl (handle_transaction_created ''2024-01-02 10:00:00'' [] example_update)"
    by code_simp
  then obtain c where c: "handle_transaction_created ''2024-01-02 10:00:00'' [] example_update = Inr c"
    by (cases "handle_transaction_created ''2024-01-02 10:00:00'' [] example_update") auto
  from updated_unknown_is_created [OF no, of "''2024-01-02 10:00:00''" c] c
  have "handle_transaction_updated ''2024-01-02 10:00:00'' [] example_update = Inr c"
    and "\<not> isl (handle_transaction_updated ''2024-01-02 10:00:00'' [] example_update)"
    using ok by simp_all
  with c no show ?thesis by simp
qed

section \<open>Replaying a \<^verbatim>\<open>transaction_created\<close> event\<close>

lemma forget_upd_eq:
  "forget_updated_at (r\<lparr>updated_at := x\<rparr>) = forget_updated_at r"
  by (simp add: forget_updated_at_def)

lemma upsert_created_again:
  assumes "upsert_created now conn p1 p2 p3 p4 p5 p6 p7 p8 p9 = Inr c1"
  shows "\<exists>c2. upsert_created now' c1 p1 p2 p3 p4 p5 p6 p7 p8 p9 = Inr c2 \<and>
           map forget_updated_at c2 = map forget_updated_at c1 \<and>
           (now' = now \<longrightarrow> c2 = c1)"
proof -
  from assms obtain t where t: "sql_text p1 = Some t"
    and fe: "first_error [p1, p2, p3, p4, p5, p6, p7, p8, p9] = None"
    by (auto simp: upsert_created_def split: option.splits)
  define F where "F = (\<lambda>(n::string) (r::row). if transaction_id r = t
                              then r\<lparr>tracking_number := sql_text p2,
                                     status := sql_text p4,
                                     metadata := coalesce (sql_text p5) (metadata r),
                                     label_url := coalesce (sql_text p6) (label_url r),
                                     tracking_url := coalesce (sql_text p7) (tracking_url r),
                                     eta := coalesce (sql_text p8) (eta r),
                                     updated_at := Some n\<rparr>
                              else r)"
  define N where "N = (blank_row (next_id conn) t)
                                 \<lparr>tracking_number := sql_text p2,
                                  carrier := sql_text p3,
                                  status := sql_text p4,
                                  metadata := sql_text p5,
                                  label_url := sql_text p6,
                                  tracking_url := sql_text p7,
                                  eta := sql_text p8,
                                  created_at := sql_text p9,
                                  updated_at := Some now\<rparr>"
  have FF: "forget_updated_at (F n' (F n r)) = forget_updated_at (F n r)" "F n (F n r) = F n r" for n n' r
    by (simp_all add: F_def forget_updated_at_def)
  have FN: "forget_updated_at (F n' N) = forget_updated_at N" "F now N = N" for n'
    by (simp_all add: F_def N_def forget_updated_at_def blank_row_def)
  have second: "list_ex (\<lambda>r. transaction_id r = t) c1 \<Longrightarrow>
      upsert_created now' c1 p1 p2 p3 p4 p5 p6 p7 p8 p9 = Inr (map (F now') c1)"
    using t fe unfolding upsert_created_def F_def by (simp del: first_error.simps)
  show ?thesis
  proof (cases "list_ex (\<lambda>r. transaction_id r = t) conn")
    case True
    with assms t fe have c1: "c1 = map (F now) conn"
      unfolding upsert_created_def F_def by (simp del: first_error.simps)
    have ex: "list_ex (\<lambda>r. transaction_id r = t) c1"
      using True unfolding c1 F_def by (subst list_ex_map_upd) simp_all
    have "map forget_updated_at (map (F now') c1) = map forget_updated_at c1"
      by (simp add: c1 FF)
    moreover have "now' = now \<longrightarrow> map (F now') c1 = c1"
      by (simp add: c1 FF)
    ultimately show ?thesis using second [OF ex] by simp
  next
    case False
    with assms t fe have c1: "c1 = conn @ [N]"
      unfolding upsert_created_def N_def by (simp del: first_error.simps)
    have ex: "list_ex (\<lambda>r. transaction_id r = t) c1"
      unfolding c1 by (simp add: N_def blank_row_def)
    from False have old: "map (F n) conn = conn" for n
      by (intro map_idI) (auto simp: list_ex_iff F_def)
    have "map forget_updated_at (map (F now') c1) = map forget_updated_at c1"
      by (simp add: c1 old FN)
    moreover have "now' = now \<longrightarrow> map (F now') c1 = c1"
      by (simp add: c1 old FN)
    ultimately show ?thesis using second [OF ex] by simp
  qed
qed

lemma created_again:
  assumes "handle_transaction_created now conn data = Inr c1"
  shows "\<exists>c2. handle_transaction_created now' c1 data = Inr c2 \<and>
           map forget_updated_at c2 = map forget_updated_at c1 \<and>
           (now' = now \<longrightarrow> c2 = c1)"
proof -
  from assms obtain d where d: "data = JObj d"
    by (cases data) (auto simp: handle_transaction_created_def)
  from assms d obtain tag where tag: "detect_carrier (get d ''tracking_number'') = Inr tag"
    by (auto simp: handle_transaction_created_def Let_def split: sum.splits)
  from assms d tag have
    "upsert_created now conn (get d ''object_id'') (get d ''tracking_number'') (JStr tag)
       (get_default d ''tracking_status'' (JStr ''PRE_TRANSIT'')) (get d ''metadata'')
       (get d ''label_url'') (get d ''tracking_url_provider'') (get d ''eta'')
       (get d ''object_created'') = Inr c1"
    by (simp add: handle_transaction_created_def Let_def)
  from upsert_created_again [OF this, of now'] d tag show ?thesis
    by (simp add: handle_transaction_created_def Let_def)
qed

lemma run_created_replay:
  assumes "handle_transaction_created now conn data = Inr c1"
  shows "\<exists>c2. run_created c1 (map (\<lambda>n. (n, data)) clocks) = Inr c2 \<and>
           map forget_updated_at c2 = map forget_updated_at c1 \<and>
           (set clocks \<subseteq> {now} \<longrightarrow> c2 = c1)"
  using assms
proof (induction clocks arbitrary: now conn c1)
  case Nil
  then show ?case by simp
next
  case (Cons n clocks)
  from created_again [OF Cons.prems, of n] obtain c2 where
    c2: "handle_transaction_created n c1 data = Inr c2"
    and f2: "map forget_updated_at c2 = map forget_updated_at c1"
    and e2: "n = now \<longrightarrow> c2 = c1" by blast
  from Cons.IH [OF c2] obtain c3 where
    c3: "run_created c2 (map (\<lambda>n. (n, data)) clocks) = Inr c3"
    and f3: "map forget_updated_at c3 = map forget_updated_at c2"
    and e3: "set clocks \<subseteq> {n} \<longrightarrow> c3 = c2" by blast
  from c2 c3 f2 f3 e2 e3 show ?case by auto
qed

lemma upsert_created_stamp:
  assumes "upsert_created now conn p1 p2 p3 p4 p5 p6 p7 p8 p9 = Inr c1"
  shows "\<exists>t. sql_text p1 = Some t \<and>
           (\<forall>r\<in>set c1. transaction_id r = t \<longrightarrow> updated_at r = Some now)"
proof -
  from assms obtain t where t: "sql_text p1 = Some t"
    and fe: "first_error [p1, p2, p3, p4, p5, p6, p7, p8, p9] = None"
    by (auto simp: upsert_created_def split: option.splits)
  define F where "F = (\<lambda>(r::row). if transaction_id r = t
                              then r\<lparr>tracking_number := sql_text p2,
                                     status := sql_text p4,
                                     metadata := coalesce (sql_text p5) (metadata r),
                                     label_url := coalesce (sql_text p6) (label_url r),
                                     tracking_url := coalesce (sql_text p7) (tracking_url r),
                                     eta := coalesce (sql_text p8) (eta r),
                                     updated_at := Some now\<rparr>
                              else r)"
  define N where "N = (blank_row (next_id conn) t)
                                 \<lparr>tracking_number := sql_text p2,
                                  carrier := sql_text p3,
                                  status := sql_text p4,
                                  metadata := sql_text p5,
                                  label_url := sql_text p6,
                                  tracking_url := sql_text p7,
                                  eta := sql_text p8,
                                  created_at := sql_text p9,
                                  updated_at := Some now\<rparr>"
  have F: "transaction_id (F r) = t \<Longrightarrow> updated_at (F r) = Some now" for r
    by (simp add: F_def split: if_splits)
  have N: "updated_at N = Some now"
    by (simp add: N_def)
  have "\<forall>r\<in>set c1. transaction_id r = t \<longrightarrow> updated_at r = Some now"
  proof (cases "list_ex (\<lambda>r. transaction_id r = t) conn")
    case True
    with assms t fe have c1: "c1 = map F conn"
      unfolding upsert_created_def F_def by (simp del: first_error.simps)
    show ?thesis unfolding c1 using F by auto
  next
    case False
    with assms t fe have c1: "c1 = conn @ [N]"
      unfolding upsert_created_def N_def by (simp del: first_error.simps)
    from False have "\<And>r. r \<in> set conn \<Longrightarrow> transaction_id r \<noteq> t"
      by (auto simp: list_ex_iff)
    then show ?thesis unfolding c1 using N by auto
  qed
  with t show ?thesis by blast
qed

lemma created_stamp:
  assumes "handle_transaction_created now conn data = Inr c1"
    and "supplied ''object_id'' data = Some t"
  shows "\<forall>r\<in>set c1. transaction_id r = t \<longrightarrow> updated_at r = Some now"
proof -
  from assms(1) obtain d where d: "data = JObj d"
    by (cases data) (auto simp: handle_transaction_created_def)
  from assms(1) d obtain tag where
    "upsert_created now conn (get d ''object_id'') (get d ''tracking_number'') (JStr tag)
       (get_default d ''tracking_status'' (JStr ''PRE_TRANSIT'')) (get d ''metadata'')
       (get d ''label_url'') (get d ''tracking_url_provider'') (get d ''eta'')
       (get d ''object_created'') = Inr c1"
    by (auto simp: handle_transaction_created_def Let_def split: sum.splits)
  from upsert_created_stamp [OF this] assms(2) d show ?thesis
    by (simp add: supplied_def)
qed

lemma run_created_stamp:
  assumes "run_created c (map (\<lambda>n. (n, data)) clocks) = Inr c2"
    and "clocks \<noteq> []" and "supplied ''object_id'' data = Some t"
  shows "\<forall>r\<in>set c2. transaction_id r = t \<longrightarrow> updated_at r = Some (last clocks)"
  using assms(1,2)
proof (induction clocks arbitrary: c)
  case Nil
  then show ?case by simp
next
  case (Cons n clocks)
  from Cons.prems(1) obtain c1 where c1: "handle_transaction_created n c data = Inr c1"
    and rest: "run_created c1 (map (\<lambda>n. (n, data)) clocks) = Inr c2"
    by (auto split: sum.splits)
  show ?case
  proof (cases "clocks = []")
    case True
    with rest created_stamp [OF c1 assms(3)] show ?thesis by simp
  next
    case False
    from Cons.IH [OF rest False] False show ?thesis by simp
  qed
qed

text \<open>
  Claim C5, as amended. For every payload, every store and every list of clock
  readings, replaying the payload through \<^verbatim>\<open>handle_transaction_created\<close> at those
  readings after a first application gives the same result as the first application
  alone in everything but \<^verbatim>\<open>updated_at\<close>: the same exception, or the same rows in
  every other column. When the replays return, the record of the transaction exists
  and its \<^verbatim>\<open>updated_at\<close> is the clock reading of the latest application; so the
  stores are equal when every replay reads the clock of the first application.
\<close>

theorem created_replay:
  "map_sum id (map forget_updated_at) (replay_created conn (now # clocks) data) =
   map_sum id (map forget_updated_at) (replay_created conn [now] data) \<and>
   replay_created conn (now # replicate n now) data = replay_created conn [now] data \<and>
   (\<forall>c. replay_created conn (now # clocks) data = Inr c \<longrightarrow>
      (\<exists>t. supplied ''object_id'' data = Some t \<and>
           list_ex (\<lambda>r. transaction_id r = t) c \<and>
           (\<forall>r\<in>set c. transaction_id r = t \<longrightarrow> updated_at r = Some (last (now # clocks)))))"
proof -
  have same: "map_sum id (map forget_updated_at) (replay_created conn (now # clocks) data) =
     map_sum id (map forget_updated_at) (replay_created conn [now] data) \<and>
     replay_created conn (now # replicate n now) data = replay_created conn [now] data"
  proof (cases "handle_transaction_created now conn data")
    case (Inl e)
    then show ?thesis by (simp add: replay_created_def)
  next
    case (Inr c1)
    from run_created_replay [OF Inr, of clocks] run_created_replay [OF Inr, of "replicate n now"] Inr
    show ?thesis by (auto simp: replay_created_def)
  qed
  have stamp: "\<exists>t. supplied ''object_id'' data = Some t \<and>
           list_ex (\<lambda>r. transaction_id r = t) c \<and>
           (\<forall>r\<in>set c. transaction_id r = t \<longrightarrow> updated_at r = Some (last (now # clocks)))"
    if run: "replay_created conn (now # clocks) data = Inr c" for c
  proof -
    from run obtain c1 where c1: "handle_transaction_created now conn data = Inr c1"
      by (auto simp: replay_created_def split: sum.splits)
    from created_record_exists [OF c1] obtain t where t: "supplied ''object_id'' data = Some t"
      by blast
    from run have run': "run_created conn (map (\<lambda>n. (n, data)) (now # clocks)) = Inr c"
      by (simp add: replay_created_def)
    have keys: "\<forall>ev\<in>set (map (\<lambda>n. (n, data)) (now # clocks)). supplied ''object_id'' (snd ev) = Some t"
      using t by simp
    from run_created_exists [OF run' _ keys] obtain r where "find_transaction t c = Some r"
      by auto
    then have ex: "list_ex (\<lambda>r. transaction_id r = t) c"
      using find_None_iff_list_ex [of "\<lambda>r. transaction_id r = t" c]
      by (simp add: find_transaction_def)
    from run_created_stamp [OF run' _ t] t ex show ?thesis by blast
  qed
  from same stamp show ?thesis by blast
qed

theorem created_replay_witness:
  "map_sum id (map forget_updated_at)
     (replay_created [] [''2024-01-01 00:00:00'', ''2024-01-01 00:00:09'', ''2024-01-03 12:00:00''] example_update) =
   map_sum id (map forget_updated_at) (replay_created [] [''2024-01-01 00:00:00''] example_update) \<and>
   replay_created [] [''2024-01-01 00:00:00'', ''2024-01-01 00:00:00'', ''2024-01-01 00:00:00''] example_update =
   replay_created [] [''2024-01-01 00:00:00''] example_update \<and>
   map transaction_id
     (the_store (replay_created [] [''2024-01-01 00:00:00'', ''2024-01-01 00:00:09'', ''2024-01-03 12:00:00''] example_update))
     = [''tx7''] \<and>
   list_all (\<lambda>r. updated_at r = Some ''2024-01-03 12:00:00'')
     (the_store (replay_created [] [''2024-01-01 00:00:00'', ''2024-01-01 00:00:09'', ''2024-01-03 12:00:00''] example_update))"
proof -
  let ?c = "the_store (replay_created [] [''2024-01-01 00:00:00'', ''2024-01-01 00:00:09'', ''2024-01-03 12:00:00''] example_update)"
  have run: "replay_created [] [''2024-01-01 00:00:00'', ''2024-01-01 00:00:09'', ''2024-01-03 12:00:00''] example_update = Inr ?c"
    by code_simp
  have ids: "map transaction_id ?c = [''tx7'']"
    by code_simp
  have key: "supplied ''object_id'' example_update = Some ''tx7''"
    by code_simp
  note inst = created_replay [of "[]" "''2024-01-01 00:00:00''"
      "[''2024-01-01 00:00:09'', ''2024-01-03 12:00:00'']" example_update 2]
  from inst run key have "\<forall>r\<in>set ?c. transaction_id r = ''tx7'' \<longrightarrow> updated_at r = Some ''2024-01-03 12:00:00''"
    by auto
  moreover have "\<forall>r\<in>set ?c. transaction_id r = ''tx7''"
  proof
    fix r assume "r \<in> set ?c"
    then have "transaction_id r \<in> set (map transaction_id ?c)" by simp
    then show "transaction_id r = ''tx7''" unfolding ids by simp
  qed
  ultimately have "list_all (\<lambda>r. updated_at r = Some ''2024-01-03 12:00:00'') ?c"
    by (simp add: list_all_iff)
  with inst ids show ?thesis by (simp add: numeral_2_eq_2)
qed

text \<open>
  Claim C5 as stated fails: applied at 00:00:00 and again at 00:00:09, the payload
  leaves a record whose \<^verbatim>\<open>updated_at\<close> is 00:00:09; applied once, 00:00:00.
\<close>

theorem created_replay_counterexample:
  "map_sum id (map updated_at)
     (replay_created [] [''2024-01-01 00:00:00'', ''2024-01-01 00:00:09''] example_update) =
     Inr [Some ''2024-01-01 00:00:09''] \<and>
   map_sum id (map updated_at) (replay_created [] [''2024-01-01 00:00:00''] example_update) =
     Inr [Some ''2024-01-01 00:00:00'']"
  by code_simp

section \<open>Properties of \<^verbatim>\<open>handle_track_updated\<close>\<close>

lemma track_updated_parts:
  assumes "handle_track_updated now conn data = Inr conn'"
  shows "\<exists>d existing tag. data = JObj d \<and>
           select_existing conn (get d ''transaction'') (get d ''tracking_number'') = Inr existing \<and>
           track_carrier d (get d ''tracking_number'') = Inr tag"
proof -
  from assms obtain d where d: "data = JObj d"
    by (cases data) (auto simp: handle_track_updated_def)
  from assms show ?thesis
    unfolding d handle_track_updated_def Let_def
    by (cases "select_existing conn (get d ''transaction'') (get d ''tracking_number'')";
        cases "track_carrier d (get d ''tracking_number'')") simp_all
qed

lemma track_updated_update:
  assumes "handle_track_updated now conn (JObj d) = Inr conn'"
    and "select_existing conn (get d ''transaction'') (get d ''tracking_number'') = Inr (Some ex)"
    and "track_carrier d (get d ''tracking_number'') = Inr tag"
  shows "conn' = map (\<lambda>r. if row_id r = row_id ex
       then r\<lparr>tracking_number := coalesce (sql_text (get d ''tracking_number'')) (tracking_number r),
              carrier := Some tag,
              status := sql_text (track_status (get_default d ''tracking_status'' (JObj []))),
              status_details := sql_text (field (get_default d ''tracking_status'' (JObj [])) ''status_details''),
              status_date := sql_text (field (get_default d ''tracking_status'' (JObj [])) ''status_date''),
              eta := coalesce (sql_text (get d ''eta'')) (eta r),
              to_name := coalesce (sql_text (field (get_default d ''address_to'' (JObj [])) ''name'')) (to_name r),
              to_city := sql_text (field (get_default d ''address_to'' (JObj [])) ''city''),
              to_state := sql_text (field (get_default d ''address_to'' (JObj [])) ''state''),
              to_zip := sql_text (field (get_default d ''address_to'' (JObj [])) ''zip''),
              to_country := sql_text (field (get_default d ''address_to'' (JObj [])) ''country''),
              from_city := sql_text (field (get_default d ''address_from'' (JObj [])) ''city''),
              from_state := sql_text (field (get_default d ''address_from'' (JObj [])) ''state''),
              from_zip := sql_text (field (get_default d ''address_from'' (JObj [])) ''zip''),
              from_country := sql_text (field (get_default d ''address_from'' (JObj [])) ''country''),
              service_name := sql_text (field (get_default d ''servicelevel'' (JObj [])) ''name''),
              service_token := sql_text (field (get_default d ''servicelevel'' (JObj [])) ''token''),
              tracking_history := Some (json_dumps (get_default d ''tracking_history'' (JArr []))),
              delivered_at := coalesce (sql_text (track_delivered_at (get_default d ''tracking_status'' (JObj [])))) (delivered_at r),
              updated_at := Some now\<rparr>
       else r) conn"
  using assms unfolding handle_track_updated_def Let_def
  by (auto simp del: first_error.simps split: option.splits if_splits)

lemma track_updated_insert:
  assumes "handle_track_updated now conn (JObj d) = Inr conn'"
    and "select_existing conn (get d ''transaction'') (get d ''tracking_number'') = Inr None"
    and "track_carrier d (get d ''tracking_number'') = Inr tag"
  shows "\<exists>n. conn' = conn @ [n] \<and>
           tracking_history n = Some (json_dumps (get_default d ''tracking_history'' (JArr []))) \<and>
           tracking_number n = sql_text (get d ''tracking_number'') \<and>
           Some (transaction_id n) =
             sql_text (if truthy (get d ''transaction'') then get d ''transaction''
                       else JStr (''track_'' @ py_str (get d ''tracking_number'')))"
  using assms unfolding handle_track_updated_def Let_def
  by (auto simp del: first_error.simps simp add: blank_row_def split: option.splits if_splits)


lemma track_updated_rows:
  assumes "handle_track_updated now conn data = Inr conn'"
  shows "(\<exists>f. conn' = map f conn \<and>
            (\<forall>r. row_id (f r) = row_id r \<and> transaction_id (f r) = transaction_id r \<and>
                 created_at (f r) = created_at r \<and> metadata (f r) = metadata r \<and>
                 label_url (f r) = label_url r \<and> tracking_url (f r) = tracking_url r \<and>
                 (delivered_at (f r) = delivered_at r \<or>
                  delivered_at (f r) = coalesce (supplied_delivered_at data) (delivered_at r)))) \<or>
         (\<exists>n. conn' = conn @ [n])"
proof -
  from track_updated_parts [OF assms] obtain d existing tag where d: "data = JObj d"
    and sel: "select_existing conn (get d ''transaction'') (get d ''tracking_number'') = Inr existing"
    and tag: "track_carrier d (get d ''tracking_number'') = Inr tag" by blast
  show ?thesis
  proof (cases existing)
    case None
    from track_updated_insert [OF assms [unfolded d] sel [unfolded None] tag]
    show ?thesis by blast
  next
    case (Some ex)
    have sd: "supplied_delivered_at data =
        sql_text (track_delivered_at (get_default d ''tracking_status'' (JObj [])))"
      by (simp add: supplied_delivered_at_def d)
    show ?thesis
      by (rule disjI1, rule exI, rule conjI,
          rule track_updated_update [OF assms [unfolded d] sel [unfolded Some] tag])
        (simp add: sd)
  qed
qed

text \<open>
  Claim C10. For every payload, when \<^verbatim>\<open>handle_track_updated\<close> returns, every record
  that was in the store is still there at its place, and its \<^verbatim>\<open>transaction_id\<close>,
  \<^verbatim>\<open>created_at\<close>, \<^verbatim>\<open>metadata\<close>, \<^verbatim>\<open>label_url\<close> and \<^verbatim>\<open>tracking_url\<close> (and its \<^verbatim>\<open>id\<close>)
  are unchanged; this holds for the record the call updates.
\<close>

theorem track_updated_frame:
  assumes "handle_track_updated now conn data = Inr conn'" and "i < length conn"
  shows "i < length conn' \<and>
         row_id (conn' ! i) = row_id (conn ! i) \<and>
         transaction_id (conn' ! i) = transaction_id (conn ! i) \<and>
         created_at (conn' ! i) = created_at (conn ! i) \<and>
         metadata (conn' ! i) = metadata (conn ! i) \<and>
         label_url (conn' ! i) = label_url (conn ! i) \<and>
         tracking_url (conn' ! i) = tracking_url (conn ! i)"
  using track_updated_rows [OF assms(1)] assms(2)
  by (auto simp: nth_append)

theorem track_updated_frame_witness:
  "0 < length example_delivered_store \<and>
   transaction_id (the_store (handle_track_updated ''2024-01-09 00:00:01'' example_delivered_store example_in_transit) ! 0)
     = transaction_id (example_delivered_store ! 0) \<and>
   created_at (the_store (handle_track_updated ''2024-01-09 00:00:01'' example_delivered_store example_in_transit) ! 0)
     = created_at (example_delivered_store ! 0) \<and>
   status (the_store (handle_track_updated ''2024-01-09 00:00:01'' example_delivered_store example_in_transit) ! 0)
     = Some ''RETURNED''"
proof -
  have run: "handle_track_updated ''2024-01-09 00:00:01'' example_delivered_store example_in_transit =
      Inr (the_store (handle_track_updated ''2024-01-09 00:00:01'' example_delivered_store example_in_transit))"
    by code_simp
  have len: "0 < length example_delivered_store" by code_simp
  have st: "status (the_store (handle_track_updated ''2024-01-09 00:00:01'' example_delivered_store example_in_transit) ! 0)
     = Some ''RETURNED''" by code_simp
  from track_updated_frame [OF run len] len st show ?thesis by simp
qed

lemma supplied_delivered_eq:
  "supplied_delivered_at data =
     (if supplied_status data = JStr ''DELIVERED'' then supplied_status_date data else None)"
proof (cases data)
  case (JObj d)
  show ?thesis
    by (cases "get_default d ''tracking_status'' (JObj [])")
      (simp_all add: JObj supplied_delivered_at_def supplied_status_def supplied_status_date_def
        track_delivered_at_def field_def)
qed (simp_all add: supplied_delivered_at_def supplied_status_def supplied_status_date_def)

lemma track_updated_delivered_rows:
  assumes "handle_track_updated now conn data = Inr conn'" and "i < length conn"
  shows "i < length conn' \<and>
         delivered_at (conn' ! i) =
           (if updated_by conn data (conn ! i)
            then coalesce (supplied_delivered_at data) (delivered_at (conn ! i))
            else delivered_at (conn ! i))"
proof -
  from track_updated_parts [OF assms(1)] obtain d existing tag where d: "data = JObj d"
    and sel: "select_existing conn (get d ''transaction'') (get d ''tracking_number'') = Inr existing"
    and tag: "track_carrier d (get d ''tracking_number'') = Inr tag" by blast
  have target: "track_target conn data = existing"
    by (simp add: track_target_def d sel)
  have sd: "supplied_delivered_at data =
        sql_text (track_delivered_at (get_default d ''tracking_status'' (JObj [])))"
    by (simp add: supplied_delivered_at_def d)
  show ?thesis
  proof (cases existing)
    case None
    from track_updated_insert [OF assms(1) [unfolded d] sel [unfolded None] tag]
    obtain n where "conn' = conn @ [n]" by blast
    with assms(2) target None show ?thesis
      by (simp add: nth_append updated_by_def)
  next
    case (Some ex)
    note upd = track_updated_update [OF assms(1) [unfolded d] sel [unfolded Some] tag]
    have len: "length conn' = length conn"
      by (subst upd) simp
    have "delivered_at (conn' ! i) =
           (if row_id (conn ! i) = row_id ex
            then coalesce (supplied_delivered_at data) (delivered_at (conn ! i))
            else delivered_at (conn ! i))"
      using assms(2) by (subst upd) (simp add: sd)
    with len assms(2) target Some show ?thesis
      by (simp add: updated_by_def)
  qed
qed

text \<open>
  Claim C2, as amended. Once \<^verbatim>\<open>delivered_at\<close> of a record is non-null, a call of
  \<^verbatim>\<open>handle_track_updated\<close> that returns never makes it null. It leaves it
  unchanged, except on the record the call updates when the payload has status
  \<^verbatim>\<open>DELIVERED\<close> with a non-null status date: there \<^verbatim>\<open>delivered_at\<close> becomes that
  date, so the latest delivery date wins.
\<close>

theorem track_updated_delivered_at:
  assumes "handle_track_updated now conn data = Inr conn'" and "i < length conn"
    and "delivered_at (conn ! i) = Some t"
  shows "i < length conn' \<and>
         delivered_at (conn' ! i) =
           (if updated_by conn data (conn ! i) \<and> supplied_status data = JStr ''DELIVERED'' \<and>
               supplied_status_date data \<noteq> None
            then supplied_status_date data
            else Some t)"
proof -
  from track_updated_delivered_rows [OF assms(1,2)] assms(3)
  have "i < length conn' \<and>
         delivered_at (conn' ! i) =
           (if updated_by conn data (conn ! i)
            then coalesce (supplied_delivered_at data) (Some t)
            else Some t)"
    by simp
  then show ?thesis
    unfolding supplied_delivered_eq
    by (cases "supplied_status_date data") auto
qed

theorem track_updated_delivered_at_witness:
  "delivered_at (example_delivered_store ! 0) = Some ''2024-01-05T10:00:00Z'' \<and>
   delivered_at (the_store (handle_track_updated ''2024-01-09 00:00:01'' example_delivered_store
                              example_in_transit) ! 0)
     = Some ''2024-01-05T10:00:00Z'' \<and>
   delivered_at (the_store (handle_track_updated ''2024-01-06 08:30:00'' example_delivered_store
                              (example_delivered ''2024-01-06T08:29:58Z'')) ! 0)
     = Some ''2024-01-06T08:29:58Z''"
proof -
  have len: "0 < length example_delivered_store" by code_simp
  have old: "delivered_at (example_delivered_store ! 0) = Some ''2024-01-05T10:00:00Z''" by code_simp
  have run1: "handle_track_updated ''2024-01-09 00:00:01'' example_delivered_store example_in_transit =
      Inr (the_store (handle_track_updated ''2024-01-09 00:00:01'' example_delivered_store example_in_transit))"
    by code_simp
  have st1: "supplied_status example_in_transit \<noteq> JStr ''DELIVERED''" by code_simp
  have run2: "handle_track_updated ''2024-01-06 08:30:00'' example_delivered_store
        (example_delivered ''2024-01-06T08:29:58Z'') =
      Inr (the_store (handle_track_updated ''2024-01-06 08:30:00'' example_delivered_store
        (example_delivered ''2024-01-06T08:29:58Z'')))"
    by code_simp
  have up2: "updated_by example_delivered_store (example_delivered ''2024-01-06T08:29:58Z'')
               (example_delivered_store ! 0)" by code_simp
  have st2: "supplied_status (example_delivered ''2024-01-06T08:29:58Z'') = JStr ''DELIVERED''"
    by code_simp
  have date2: "supplied_status_date (example_delivered ''2024-01-06T08:29:58Z'') = Some ''2024-01-06T08:29:58Z''"
    by code_simp
  from track_updated_delivered_at [OF run1 len old] st1
  have a: "delivered_at (the_store (handle_track_updated ''2024-01-09 00:00:01'' example_delivered_store
                              example_in_transit) ! 0) = Some ''2024-01-05T10:00:00Z''"
    by simp
  from track_updated_delivered_at [OF run2 len old] up2 st2 date2
  have b: "delivered_at (the_store (handle_track_updated ''2024-01-06 08:30:00'' example_delivered_store
                              (example_delivered ''2024-01-06T08:29:58Z'')) ! 0) = Some ''2024-01-06T08:29:58Z''"
    by simp
  from old a b show ?thesis by simp
qed

text \<open>
  Claim C2 as stated fails: a record delivered on 2024-01-05 receives a second
  \<^verbatim>\<open>DELIVERED\<close> event dated 2024-01-06, and its \<^verbatim>\<open>delivered_at\<close> becomes the
  second date.
\<close>

theorem track_updated_delivered_at_counterexample:
  "map delivered_at example_delivered_store = [Some ''2024-01-05T10:00:00Z''] \<and>
   map_sum id (map delivered_at)
     (handle_track_updated ''2024-01-06 08:30:00'' example_delivered_store
        (example_delivered ''2024-01-06T08:29:58Z'')) = Inr [Some ''2024-01-06T08:29:58Z'']"
  by code_simp

section \<open>Decoding what was encoded\<close>

lemma of_char_char_of_small: "n < 256 \<Longrightarrow> (of_char (char_of n) :: nat) = n"
  by (simp add: of_char_of)

lemma hex_value_digit: "d < 16 \<Longrightarrow> hex_value (hex_digit d) = Some d"
  unfolding hex_value_def hex_digit_def Let_def
  by (cases "d < 10") (simp_all add: of_char_char_of_small)

lemma hex4_length [simp]: "length (hex4 n) = 4"
  by (simp add: hex4_def)


lemma hex4_value_hex4: "n < 256 \<Longrightarrow> hex4_value (hex4 n) = Some n"
proof -
  assume n: "n < 256"
  then have a: "n div 4096 = 0" "n div 256 = 0" "n div 16 mod 16 = n div 16" "n div 16 < 16"
    by simp_all
  have b: "16 * (n div 16) + n mod 16 = n" by simp
  show ?thesis
    unfolding hex4_def using a b
    by (simp add: hex_value_digit)
qed

lemma scan_string_plain:
  "c \<noteq> CHR 0x22 \<Longrightarrow> c \<noteq> CHR 0x5C \<Longrightarrow> \<not> (of_char c :: nat) < 32 \<Longrightarrow>
   scan_string (c # X) = map_option (\<lambda>p. (c # fst p, snd p)) (scan_string X)"
  by simp

lemma scan_string_letter:
  "unescape e = Some x \<Longrightarrow> e \<noteq> CHR ''u'' \<Longrightarrow>
   scan_string (CHR 0x5C # e # X) = map_option (\<lambda>p. (x # fst p, snd p)) (scan_string X)"
  by simp

lemma scan_string_u:
  "n < 256 \<Longrightarrow>
   scan_string (CHR 0x5C # CHR ''u'' # hex4 n @ X) = map_option (\<lambda>p. (char_of n # fst p, snd p)) (scan_string X)"
  by (simp add: hex4_value_hex4)

lemma char_eq_by_code: "(of_char c :: nat) = of_char d \<Longrightarrow> c = d"
  by (metis char_of_char)

lemma code_neq:
  assumes "c \<notin> {CHR 0x22, CHR 0x5C, CHR 0x08, CHR 0x0C, CHR 0x0A, CHR 0x0D, CHR 0x09}"
  shows "(of_char c :: nat) \<noteq> 8" "(of_char c :: nat) \<noteq> 12" "(of_char c :: nat) \<noteq> 10"
      "(of_char c :: nat) \<noteq> 13" "(of_char c :: nat) \<noteq> 9"
  using assms char_eq_by_code [of c "CHR 0x08"] char_eq_by_code [of c "CHR 0x0C"]
    char_eq_by_code [of c "CHR 0x0A"] char_eq_by_code [of c "CHR 0x0D"] char_eq_by_code [of c "CHR 0x09"]
  by auto

lemma scan_string_escape:
  "scan_string (escape_char c @ X) = map_option (\<lambda>p. (c # fst p, snd p)) (scan_string X)"
proof -
  have n: "(of_char c :: nat) < 256" by (rule nat_of_char_less_256)
  have c: "char_of (of_char c :: nat) = c" by (rule char_of_char)
  consider (dq) "c = CHR 0x22" | (bs) "c = CHR 0x5C" | (b) "c = CHR 0x08" | (f) "c = CHR 0x0C"
    | (n) "c = CHR 0x0A" | (r) "c = CHR 0x0D" | (t) "c = CHR 0x09"
    | (u) "c \<notin> {CHR 0x22, CHR 0x5C, CHR 0x08, CHR 0x0C, CHR 0x0A, CHR 0x0D, CHR 0x09}"
          "(of_char c :: nat) < 32 \<or> 126 < (of_char c :: nat)"
    | (p) "c \<notin> {CHR 0x22, CHR 0x5C, CHR 0x08, CHR 0x0C, CHR 0x0A, CHR 0x0D, CHR 0x09}"
          "\<not> ((of_char c :: nat) < 32 \<or> 126 < (of_char c :: nat))"
    by blast
  then show ?thesis
  proof cases
    case u
    have ne: "(of_char c :: nat) \<noteq> 8" "(of_char c :: nat) \<noteq> 12" "(of_char c :: nat) \<noteq> 10"
      "(of_char c :: nat) \<noteq> 13" "(of_char c :: nat) \<noteq> 9"
      using code_neq [OF u(1)] by simp_all
    from u ne have "escape_char c = [CHR 0x5C, CHR ''u''] @ hex4 (of_char c)"
      by (simp add: escape_char_def Let_def)
    with scan_string_u [OF n, of X] c show ?thesis by simp
  next
    case p
    have ne: "(of_char c :: nat) \<noteq> 8" "(of_char c :: nat) \<noteq> 12" "(of_char c :: nat) \<noteq> 10"
      "(of_char c :: nat) \<noteq> 13" "(of_char c :: nat) \<noteq> 9"
      using code_neq [OF p(1)] by simp_all
    from p ne have "escape_char c = [c]"
      by (simp add: escape_char_def Let_def)
    with p show ?thesis by simp
  qed (simp_all add: escape_char_def unescape_def)
qed

lemma scan_string_dumps:
  "scan_string (concat (map escape_char s) @ CHR 0x22 # rest) = Some (s, rest)"
  by (induction s) (simp_all add: scan_string_escape del: scan_string.simps(2), simp)


lemma digit_char_code: "d < 10 \<Longrightarrow> (of_char (digit_char d) :: nat) = 48 + d"
  by (simp add: digit_char_def of_char_of)

lemma isdigit_digit_char: "d < 10 \<Longrightarrow> isdigit_char (digit_char d)"
  by (simp add: isdigit_char_def digit_char_code)

lemma dec_nat_digits: "list_all isdigit_char (dec_nat n)"
  by (induction n rule: dec_nat.induct) (subst dec_nat.simps, simp add: isdigit_digit_char)

lemma dec_nat_nonempty: "dec_nat n \<noteq> []"
  by (subst dec_nat.simps) simp

lemma digits_value_snoc: "digits_value (ds @ [c]) = 10 * digits_value ds + (of_char c - 48)"
  by (simp add: digits_value_def)

lemma digits_value_dec_nat: "digits_value (dec_nat n) = n"
proof (induction n rule: dec_nat.induct)
  case (1 n)
  show ?case
  proof (cases "n < 10")
    case True
    then show ?thesis
      by (subst dec_nat.simps) (simp add: digits_value_def digit_char_code)
  next
    case False
    with 1 show ?thesis
      by (subst dec_nat.simps) (simp add: digits_value_snoc digit_char_code)
  qed
qed

lemma dec_nat_hd: "0 < n \<Longrightarrow> hd (dec_nat n) \<noteq> CHR ''0''"
proof (induction n rule: dec_nat.induct)
  case (1 n)
  show ?case
  proof (cases "n < 10")
    case True
    have "(of_char (digit_char n) :: nat) \<noteq> of_char (CHR ''0'')"
      using True 1(2) by (simp add: digit_char_code)
    then have "digit_char n \<noteq> CHR ''0''" by auto
    with True show ?thesis by (subst dec_nat.simps) simp
  next
    case False
    then have "0 < n div 10" by simp
    with 1(1) False have "hd (dec_nat (n div 10)) \<noteq> CHR ''0''" by simp
    with False dec_nat_nonempty [of "n div 10"] show ?thesis
      by (subst dec_nat.simps) simp
  qed
qed

lemma digit_char_0: "digit_char 0 = CHR ''0''"
  by (rule char_eq_by_code) (simp add: digit_char_code)

lemma dec_nat_zero: "dec_nat 0 = ''0''"
  by (subst dec_nat.simps) (simp add: digit_char_0)

lemma not_digit_delims:
  "\<not> isdigit_char (CHR '','')" "\<not> isdigit_char (CHR '']'')" "\<not> isdigit_char (CHR ''}'')"
  "\<not> isdigit_char (CHR ''-'')"
  by (simp_all add: isdigit_char_def)

lemma takeWhile_digits:
  assumes "delimited rest"
  shows "takeWhile isdigit_char (dec_nat n @ rest) = dec_nat n"
proof -
  have "takeWhile isdigit_char rest = []"
    using assms by (cases rest) (auto simp: delimited_def not_digit_delims)
  moreover have "\<forall>x\<in>set (dec_nat n). isdigit_char x"
    using dec_nat_digits [of n] by (simp add: list_all_iff)
  ultimately show ?thesis by (simp add: takeWhile_append2)
qed

lemma delimited_not_float: "delimited rest \<Longrightarrow> \<not> is_float_tail rest"
  by (cases rest) (auto simp: delimited_def is_float_tail_def)

lemma take1_dec_nat: "take 1 (dec_nat n @ rest) = [hd (dec_nat n)]"
  using dec_nat_nonempty [of n] by (cases "dec_nat n") simp_all

lemma dec_nat_hd_digit: "isdigit_char (hd (dec_nat n))"
  using dec_nat_digits [of n] dec_nat_nonempty [of n] by (cases "dec_nat n") simp_all

lemma parse_number_nat:
  assumes "delimited rest"
  shows "parse_number (dec_nat n @ rest) = Some (JNum (int n), rest)"
proof -
  have nm: "take 1 (dec_nat n @ rest) \<noteq> ''-''"
    unfolding take1_dec_nat using dec_nat_hd_digit [of n] not_digit_delims(4) by auto
  show ?thesis
  proof (cases "n = 0")
    case True
    with assms show ?thesis
      by (simp add: parse_number_def dec_nat_zero delimited_not_float digits_value_def)
  next
    case False
    then have "take 1 (dec_nat n @ rest) \<noteq> ''0''"
      unfolding take1_dec_nat using dec_nat_hd [of n] by simp
    with nm assms show ?thesis
      by (simp add: parse_number_def Let_def takeWhile_digits dec_nat_nonempty
          delimited_not_float digits_value_dec_nat)
  qed
qed

lemma parse_number_dec_int:
  assumes "delimited rest"
  shows "parse_number (dec_int i @ rest) = Some (JNum i, rest)"
proof (cases "i < 0")
  case False
  with parse_number_nat [OF assms, of "nat i"] show ?thesis by (simp add: dec_int_def)
next
  case True
  then have pos: "0 < nat (- i)" by simp
  have "take 1 (dec_nat (nat (- i)) @ rest) \<noteq> ''0''"
    unfolding take1_dec_nat using dec_nat_hd [OF pos] by simp
  with True assms show ?thesis
    by (simp add: dec_int_def parse_number_def Let_def takeWhile_digits dec_nat_nonempty
        delimited_not_float digits_value_dec_nat)
qed


lemma value_start_not:
  assumes "value_start c"
  shows "\<not> is_ws c" "c \<noteq> CHR '']''" "c \<noteq> CHR ''}''"
  using assms by (auto simp: value_start_def is_ws_def isdigit_char_def)

lemma dec_int_start: "\<exists>c cs. dec_int i = c # cs \<and> (c = CHR ''-'' \<or> isdigit_char c)"
proof (cases "i < 0")
  case True
  then show ?thesis by (simp add: dec_int_def)
next
  case False
  with dec_nat_hd_digit [of "nat i"] dec_nat_nonempty [of "nat i"] show ?thesis
    by (cases "dec_nat (nat i)") (simp_all add: dec_int_def)
qed

lemma json_dumps_start: "\<exists>c cs. json_dumps v = c # cs \<and> value_start c"
proof (cases v)
  case (JNum i)
  with dec_int_start [of i] show ?thesis by (auto simp: value_start_def)
qed (auto simp: value_start_def dumps_str_def)

lemma skip_ws_start: "s = c # cs \<Longrightarrow> \<not> is_ws c \<Longrightarrow> skip_ws (s @ rest) = s @ rest"
  by (simp add: skip_ws_def)

lemma skip_ws_dumps: "skip_ws (json_dumps v @ rest) = json_dumps v @ rest"
  using json_dumps_start [of v] value_start_not(1) skip_ws_start by blast

lemma skip_ws_delims [simp]:
  "skip_ws (CHR '','' # s) = CHR '','' # s" "skip_ws (CHR '']'' # s) = CHR '']'' # s"
  "skip_ws (CHR ''}'' # s) = CHR ''}'' # s" "skip_ws (CHR '':'' # s) = CHR '':'' # s"
  "skip_ws (CHR '' '' # s) = skip_ws s" "skip_ws [] = []"
  by (simp_all add: skip_ws_def is_ws_def)

lemma delimited_simps [simp]:
  "delimited []" "delimited (CHR '','' # s)" "delimited (CHR '']'' # s)" "delimited (CHR ''}'' # s)"
  by (simp_all add: delimited_def)

lemma parse_value_num:
  assumes "delimited rest"
  shows "parse_value (Suc n) (dec_int i @ rest) = Some (JNum i, rest)"
proof -
  from dec_int_start [of i] obtain c cs where c: "dec_int i = c # cs"
    and cc: "c = CHR ''-'' \<or> isdigit_char c" by blast
  from cc have ne: "c \<noteq> CHR 0x22" "c \<noteq> CHR ''{''" "c \<noteq> CHR ''[''" "c \<noteq> CHR ''n''"
    "c \<noteq> CHR ''t''" "c \<noteq> CHR ''f''"
    by (auto simp: isdigit_char_def)
  have "parse_value (Suc n) (c # cs @ rest) = parse_number (c # cs @ rest)"
    using ne by simp
  with parse_number_dec_int [OF assms, of i] c show ?thesis by simp
qed

lemma parse_value_str:
  "parse_value (Suc n) (dumps_str s @ rest) = Some (JStr s, rest)"
  by (simp add: dumps_str_def scan_string_dumps)

lemma join_start:
  assumes "xs \<noteq> []" and "\<And>x. x \<in> set xs \<Longrightarrow> \<exists>c cs. f x = c # cs \<and> value_start c"
  shows "\<exists>c cs. join sep (map f xs) = c # cs \<and> value_start c"
proof (cases xs)
  case Nil
  with assms show ?thesis by simp
next
  case (Cons x ys)
  with assms(2) [of x] show ?thesis by (cases ys) auto
qed

lemma parse_elements_dumps:
  assumes "\<And>x n rest. x \<in> set xs \<Longrightarrow> delimited rest \<Longrightarrow> length (json_dumps x) < n \<Longrightarrow>
             parse_value n (json_dumps x @ rest) = Some (normalise x, rest)"
    and "xs \<noteq> []" and "length (join '', '' (map json_dumps xs)) + 1 < n"
  shows "parse_elements n (join '', '' (map json_dumps xs) @ CHR '']'' # rest) acc =
           Some (acc @ map normalise xs, rest)"
  using assms
proof (induction xs arbitrary: n acc)
  case Nil
  then show ?case by simp
next
  case (Cons x xs)
  note hyp = Cons.IH and val = Cons.prems(1) and fuel = Cons.prems(3)
  from fuel obtain m where n: "n = Suc m" by (cases n) auto
  show ?case
  proof (cases xs)
    case Nil
    have "parse_value m (json_dumps x @ CHR '']'' # rest) = Some (normalise x, CHR '']'' # rest)"
      using fuel n Nil by (intro val) simp_all
    then show ?thesis by (simp add: n Nil)
  next
    case tail: (Cons y ys)
    let ?J = "join '', '' (map json_dumps (y # ys))"
    have whole: "join '', '' (map json_dumps (x # xs)) @ CHR '']'' # rest =
               json_dumps x @ CHR '','' # CHR '' '' # ?J @ CHR '']'' # rest"
      by (simp add: tail)
    have len: "length (join '', '' (map json_dumps (x # xs))) = length (json_dumps x) + 2 + length ?J"
      by (simp add: tail)
    have pv: "parse_value m (json_dumps x @ CHR '','' # CHR '' '' # ?J @ CHR '']'' # rest) =
              Some (normalise x, CHR '','' # CHR '' '' # ?J @ CHR '']'' # rest)"
      using fuel n len by (intro val) simp_all
    from join_start [of "y # ys" json_dumps "'', ''"] json_dumps_start
    obtain c cs where J: "?J = c # cs" and "value_start c" by auto
    then have sk: "skip_ws (?J @ CHR '']'' # rest) = ?J @ CHR '']'' # rest"
      using skip_ws_start [OF J] value_start_not(1) by blast
    have rec: "parse_elements m (?J @ CHR '']'' # rest) (acc @ [normalise x]) =
               Some ((acc @ [normalise x]) @ map normalise xs, rest)"
      unfolding tail [symmetric]
      using val fuel n len tail by (intro hyp) simp_all
    show ?thesis
      unfolding whole n using pv sk rec by simp
  qed
qed


lemma member_text_start: "\<exists>c cs. member_text p = c # cs \<and> value_start c"
  by (simp add: member_text_def dumps_str_def value_start_def)

lemma json_dumps_obj:
  "json_dumps (JObj ps) = ''{'' @ join '', '' (map member_text ps) @ ''}''"
proof -
  have "(\<lambda>x. dumps_str (fst x) @ CHR '':'' # CHR '' '' # json_dumps (snd x)) = member_text"
    by (rule ext) (simp add: member_text_def)
  then show ?thesis by (simp add: o_def)
qed

lemma normalise_obj:
  "normalise (JObj ps) = JObj (foldl (\<lambda>acc p. dict_set (fst p) (normalise (snd p)) acc) [] ps)"
proof -
  have "foldl (\<lambda>acc p. dict_set (fst p) (snd p) acc) a (map (map_prod id normalise) ps) =
        foldl (\<lambda>acc p. dict_set (fst p) (normalise (snd p)) acc) a ps" for a
    by (induction ps arbitrary: a) simp_all
  then show ?thesis by simp
qed

lemma parse_member_step:
  assumes "parse_value m (json_dumps v @ rest) = Some (normalise v, rest)"
  shows "parse_members (Suc m) (member_text (k, v) @ rest) acc =
     (case skip_ws rest of
        [] \<Rightarrow> None
      | x # xs \<Rightarrow>
         if x = CHR ''}'' then Some (dict_set k (normalise v) acc, xs)
         else if x = CHR '','' then parse_members m (skip_ws xs) (dict_set k (normalise v) acc)
         else None)"
  using assms
  by (simp add: member_text_def dumps_str_def scan_string_dumps skip_ws_dumps)

lemma parse_members_dumps:
  assumes "\<And>p n rest. p \<in> set ps \<Longrightarrow> delimited rest \<Longrightarrow> length (json_dumps (snd p)) < n \<Longrightarrow>
             parse_value n (json_dumps (snd p) @ rest) = Some (normalise (snd p), rest)"
    and "ps \<noteq> []" and "length (join '', '' (map member_text ps)) + 1 < n"
  shows "parse_members n (join '', '' (map member_text ps) @ CHR ''}'' # rest) acc =
           Some (foldl (\<lambda>acc p. dict_set (fst p) (normalise (snd p)) acc) acc ps, rest)"
  using assms
proof (induction ps arbitrary: n acc)
  case Nil
  then show ?case by simp
next
  case (Cons p ps)
  note hyp = Cons.IH and val = Cons.prems(1) and fuel = Cons.prems(3)
  from fuel obtain m where n: "n = Suc m" by (cases n) auto
  obtain k v where p: "p = (k, v)" by (cases p)
  have mlen: "length (json_dumps v) < length (member_text p)"
    by (simp add: member_text_def p)
  show ?case
  proof (cases ps)
    case Nil
    have "parse_value m (json_dumps v @ CHR ''}'' # rest) = Some (normalise v, CHR ''}'' # rest)"
      using fuel n Nil mlen val [of p "CHR ''}'' # rest" m] by (simp add: p)
    from parse_member_step [OF this, of k acc] show ?thesis
      by (simp add: n Nil p)
  next
    case tail: (Cons q qs)
    let ?J = "join '', '' (map member_text (q # qs))"
    have whole: "join '', '' (map member_text (p # ps)) @ CHR ''}'' # rest =
               member_text (k, v) @ CHR '','' # CHR '' '' # ?J @ CHR ''}'' # rest"
      by (simp add: tail p)
    have len: "length (join '', '' (map member_text (p # ps))) = length (member_text p) + 2 + length ?J"
      by (simp add: tail)
    have pv: "parse_value m (json_dumps v @ CHR '','' # CHR '' '' # ?J @ CHR ''}'' # rest) =
              Some (normalise v, CHR '','' # CHR '' '' # ?J @ CHR ''}'' # rest)"
      using fuel n len mlen val [of p "CHR '','' # CHR '' '' # ?J @ CHR ''}'' # rest" m] by (simp add: p)
    from join_start [of "q # qs" member_text "'', ''"] member_text_start
    obtain c cs where J: "?J = c # cs" and "value_start c" by auto
    then have sk: "skip_ws (?J @ CHR ''}'' # rest) = ?J @ CHR ''}'' # rest"
      using skip_ws_start [OF J] value_start_not(1) by blast
    have rec: "parse_members m (?J @ CHR ''}'' # rest) (dict_set k (normalise v) acc) =
               Some (foldl (\<lambda>acc p. dict_set (fst p) (normalise (snd p)) acc) (dict_set k (normalise v) acc) ps, rest)"
      unfolding tail [symmetric]
      using val fuel n len tail by (intro hyp) simp_all
    show ?thesis
      unfolding whole n using parse_member_step [OF pv, of k acc] sk rec by (simp add: p)
  qed
qed

lemma parse_value_dumps:
  "delimited rest \<Longrightarrow> length (json_dumps v) < n \<Longrightarrow>
   parse_value n (json_dumps v @ rest) = Some (normalise v, rest)"
proof (induction v arbitrary: n rest)
  case JNull
  then obtain m where "n = Suc m" by (cases n) auto
  then show ?case by simp
next
  case (JBool b)
  then obtain m where "n = Suc m" by (cases n) auto
  then show ?case by simp
next
  case (JNum i)
  then obtain m where "n = Suc m" by (cases n) auto
  with JNum parse_value_num show ?case by simp
next
  case (JStr s)
  then obtain m where "n = Suc m" by (cases n) auto
  with parse_value_str show ?case by simp
next
  case (JArr xs)
  from JArr.prems(2) obtain m where n: "n = Suc m" by (cases n) auto
  show ?case
  proof (cases "xs = []")
    case True
    then show ?thesis by (simp add: n)
  next
    case False
    let ?J = "join '', '' (map json_dumps xs)"
    from join_start [OF False, of json_dumps "'', ''"] json_dumps_start
    obtain c cs where J: "?J = c # cs" and vs: "value_start c" by auto
    have sk: "skip_ws (?J @ CHR '']'' # rest) = c # cs @ CHR '']'' # rest"
      using skip_ws_start [OF J, of "CHR '']'' # rest"] value_start_not(1) [OF vs] J by simp
    have "parse_elements m (?J @ CHR '']'' # rest) [] = Some ([] @ map normalise xs, rest)"
      using JArr.prems(2) n False by (intro parse_elements_dumps JArr.IH) simp_all
    then show ?thesis
      using sk value_start_not(2) [OF vs] J by (simp add: n)
  qed
next
  case (JObj ps)
  from JObj.prems(2) obtain m where n: "n = Suc m" by (cases n) auto
  show ?case
  proof (cases "ps = []")
    case True
    then show ?thesis by (simp add: n)
  next
    case False
    let ?J = "join '', '' (map member_text ps)"
    from join_start [OF False, of member_text "'', ''"] member_text_start
    obtain c cs where J: "?J = c # cs" and vs: "value_start c" by auto
    have sk: "skip_ws (?J @ CHR ''}'' # rest) = c # cs @ CHR ''}'' # rest"
      using skip_ws_start [OF J, of "CHR ''}'' # rest"] value_start_not(1) [OF vs] J by simp
    have val: "parse_value n (json_dumps (snd p) @ rest) = Some (normalise (snd p), rest)"
      if "p \<in> set ps" "delimited rest" "length (json_dumps (snd p)) < n" for p n rest
      using that by (intro JObj.IH [of p "snd p"]) (cases p, simp_all add: snds.simps)
    have "parse_members m (?J @ CHR ''}'' # rest) [] =
            Some (foldl (\<lambda>acc p. dict_set (fst p) (normalise (snd p)) acc) [] ps, rest)"
      using JObj.prems(2) n False val
      by (intro parse_members_dumps) (simp_all add: json_dumps_obj del: json_dumps.simps)
    then show ?thesis
      unfolding json_dumps_obj normalise_obj
      using sk value_start_not(3) [OF vs] J by (simp add: n)
  qed
qed

lemma json_loads_dumps: "json_loads (json_dumps v) = Some (normalise v)"
  using parse_value_dumps [of "[]" v "Suc (length (json_dumps v))"] skip_ws_dumps [of v "[]"]
  by (simp add: json_loads_def)

section \<open>Properties of the shipment list\<close>

lemma set_insert_desc: "set (insert_desc r xs) = insert r (set xs)"
  by (induction xs) auto

lemma set_order_by_created_desc: "set (order_by_created_desc rows) = set rows"
  unfolding order_by_created_desc_def by (induction rows) (simp_all add: set_insert_desc)

lemma set_sql_limit: "set (sql_limit n xs) \<subseteq> set xs"
  by (auto simp: sql_limit_def dest: in_set_takeD)

lemma list_query_days_error:
  assumes "(case days_arg of None \<Rightarrow> Inr 90 | Some s \<Rightarrow> py_int s) = Inl e"
  shows "get_shippo_shipments window_start conn status_arg search_arg days_arg limit_arg = Inl e"
  unfolding get_shippo_shipments_def by (simp only: assms sum.case)

lemma list_query_limit_error:
  assumes "(case days_arg of None \<Rightarrow> Inr 90 | Some s \<Rightarrow> py_int s) = Inr days"
    and "(case limit_arg of None \<Rightarrow> Inr 200 | Some s \<Rightarrow> py_int s) = Inl e"
  shows "get_shippo_shipments window_start conn status_arg search_arg days_arg limit_arg = Inl e"
  unfolding get_shippo_shipments_def by (simp only: assms sum.case)

lemma list_query_bind_error:
  assumes "(case days_arg of None \<Rightarrow> Inr 90 | Some s \<Rightarrow> py_int s) = Inr days"
    and "(case limit_arg of None \<Rightarrow> Inr 200 | Some s \<Rightarrow> py_int s) = Inr l"
    and "bind_error (JNum l) = Some e"
  shows "get_shippo_shipments window_start conn status_arg search_arg days_arg limit_arg = Inl e"
  unfolding get_shippo_shipments_def by (simp only: assms sum.case option.case Let_def)

lemma list_query_rows:
  assumes "(case days_arg of None \<Rightarrow> Inr 90 | Some s \<Rightarrow> py_int s) = Inr days"
    and "(case limit_arg of None \<Rightarrow> Inr 200 | Some s \<Rightarrow> py_int s) = Inr l"
    and "bind_error (JNum l) = None"
  shows "get_shippo_shipments window_start conn status_arg search_arg days_arg limit_arg =
     Inr (map (\<lambda>r. (r, decode_history (tracking_history r)))
            (sql_limit l
               (order_by_created_desc
                  (filter (where_clause (window_start days)
                             (case status_arg of
                                None \<Rightarrow> None
                              | Some s \<Rightarrow> if s \<noteq> [] \<and> upper s \<noteq> ''ALL'' then Some (upper s) else None)
                             (case search_arg of None \<Rightarrow> [] | Some s \<Rightarrow> s))
                     conn))))"
  unfolding get_shippo_shipments_def by (simp only: assms sum.case option.case Let_def)

lemma listed_rows:
  assumes "get_shippo_shipments window_start conn status_arg search_arg days_arg limit_arg = Inr shipments"
    and "s \<in> set shipments"
  shows "fst s \<in> set conn \<and> sql_ne (status (fst s)) ''ERROR'' \<and>
         snd s = decode_history (tracking_history (fst s))"
proof (cases "case days_arg of None \<Rightarrow> Inr 90 | Some s \<Rightarrow> py_int s")
  case (Inl e)
  from list_query_days_error [OF Inl] assms(1) show ?thesis by simp
next
  case days: (Inr days)
  show ?thesis
  proof (cases "case limit_arg of None \<Rightarrow> Inr 200 | Some s \<Rightarrow> py_int s")
    case (Inl e)
    from list_query_limit_error [OF days Inl] assms(1) show ?thesis by simp
  next
    case limit: (Inr l)
    show ?thesis
    proof (cases "bind_error (JNum l)")
      case (Some e)
      from list_query_bind_error [OF days limit Some] assms(1) show ?thesis by simp
    next
      case None
      define P where "P = where_clause (window_start days)
                             (case status_arg of
                                None \<Rightarrow> None
                              | Some s \<Rightarrow> if s \<noteq> [] \<and> upper s \<noteq> ''ALL'' then Some (upper s) else None)
                             (case search_arg of None \<Rightarrow> [] | Some s \<Rightarrow> s)"
      have "get_shippo_shipments window_start conn status_arg search_arg days_arg limit_arg =
          Inr (map (\<lambda>r. (r, decode_history (tracking_history r)))
                 (sql_limit l (order_by_created_desc (filter P conn))))"
        unfolding P_def by (rule list_query_rows [OF days limit None])
      from trans [OF assms(1) [symmetric] this]
      have sh: "shipments = map (\<lambda>r. (r, decode_history (tracking_history r)))
           (sql_limit l (order_by_created_desc (filter P conn)))"
        by (simp only: sum.inject)
      from assms(2) obtain r where r: "s = (r, decode_history (tracking_history r))"
        and lim: "r \<in> set (sql_limit l (order_by_created_desc (filter P conn)))"
        unfolding sh set_map by blast
      from lim have "r \<in> set (order_by_created_desc (filter P conn))"
        by (rule subsetD [OF set_sql_limit])
      then have "r \<in> set conn \<and> P r"
        by (simp add: set_order_by_created_desc)
      with r show ?thesis by (simp add: P_def where_clause_def)
    qed
  qed
qed

text \<open>
  Claim C8. For every store and every combination of the \<^verbatim>\<open>status\<close>, \<^verbatim>\<open>search\<close>,
  \<^verbatim>\<open>days\<close> and \<^verbatim>\<open>limit\<close> query parameters (and every clock), when the shipment-list
  query answers, every shipment it lists is a record of the store whose status is not
  \<^verbatim>\<open>ERROR\<close>.
\<close>

theorem list_excludes_error:
  assumes "get_shippo_shipments window_start conn status_arg search_arg days_arg limit_arg = Inr shipments"
  shows "\<forall>s\<in>set shipments. fst s \<in> set conn \<and> status (fst s) \<noteq> Some ''ERROR''"
proof
  fix s assume "s \<in> set shipments"
  from listed_rows [OF assms this] show "fst s \<in> set conn \<and> status (fst s) \<noteq> Some ''ERROR''"
    by (auto simp: sql_ne_def)
qed

theorem list_excludes_error_witness:
  "map status example_error_store = [Some ''PRE_TRANSIT'', Some ''ERROR''] \<and>
   map (\<lambda>s. transaction_id (fst s)) example_listing = [''tx1''] \<and>
   list_all (\<lambda>s. status (fst s) \<noteq> Some ''ERROR'') example_listing"
proof -
  have run: "get_shippo_shipments example_window example_error_store
               (Some ''all'') (Some []) (Some ''30'') None = Inr example_listing"
    by code_simp
  have a: "map status example_error_store = [Some ''PRE_TRANSIT'', Some ''ERROR'']"
    by code_simp
  have b: "map (\<lambda>s. transaction_id (fst s)) example_listing = [''tx1'']"
    by code_simp
  from list_excludes_error [OF run] a b show ?thesis
    by (simp add: list_all_iff)
qed

section \<open>The history a \<^verbatim>\<open>track_updated\<close> event leaves\<close>

lemma select_existing_found:
  assumes "select_existing conn txn tn = Inr (Some ex)"
  shows "ex \<in> set conn \<and>
         (if truthy txn then Some (transaction_id ex) = sql_text txn
          else tracking_number ex \<noteq> None \<and> tracking_number ex = sql_text tn)"
  using assms
  by (auto simp: select_existing_def find_Some_iff split: if_splits option.splits)

lemma decode_dumps:
  "json_loads (json_dumps (JArr xs)) = Some (JArr (map normalise xs)) \<and>
   decode_history (Some (json_dumps (JArr xs))) = JArr (map normalise xs)"
proof -
  have "json_loads (json_dumps (JArr xs)) = Some (normalise (JArr xs))"
    by (rule json_loads_dumps)
  then have l: "json_loads (json_dumps (JArr xs)) = Some (JArr (map normalise xs))"
    by simp
  have "json_dumps (JArr xs) \<noteq> []" by simp
  with l show ?thesis by (simp add: decode_history_def del: json_dumps.simps)
qed

text \<open>
  Claim C7. For every prior store and every \<^verbatim>\<open>track_updated\<close> payload whose history
  is an array of length K (the empty array when the payload has none), when
  \<^verbatim>\<open>handle_track_updated\<close> returns, the record it updated or inserted holds as
  \<^verbatim>\<open>tracking_history\<close> the encoding of that array and nothing of the prior history,
  and this text decodes to an array of length exactly K.
\<close>

theorem track_updated_history:
  assumes "handle_track_updated now conn data = Inr conn'"
    and "supplied_history data = JArr xs"
  shows "\<exists>r\<in>set conn'.
           (case track_target conn data of Some ex \<Rightarrow> row_id r = row_id ex | None \<Rightarrow> r = last conn') \<and>
           keyed_by data r \<and>
           tracking_history r = Some (json_dumps (JArr xs)) \<and>
           json_loads (json_dumps (JArr xs)) = Some (JArr (map normalise xs)) \<and>
           decoded_history r = JArr (map normalise xs) \<and>
           length (map normalise xs) = length xs"
proof -
  from track_updated_parts [OF assms(1)] obtain d existing tag where d: "data = JObj d"
    and sel: "select_existing conn (get d ''transaction'') (get d ''tracking_number'') = Inr existing"
    and tag: "track_carrier d (get d ''tracking_number'') = Inr tag" by blast
  have target: "track_target conn data = existing"
    by (simp add: track_target_def d sel)
  from assms(2) have hist: "get_default d ''tracking_history'' (JArr []) = JArr xs"
    by (simp add: supplied_history_def d)
  have "\<exists>r\<in>set conn'.
           (case existing of Some ex \<Rightarrow> row_id r = row_id ex | None \<Rightarrow> r = last conn') \<and>
           keyed_by data r \<and> tracking_history r = Some (json_dumps (JArr xs))"
  proof (cases existing)
    case None
    from track_updated_insert [OF assms(1) [unfolded d] sel [unfolded None] tag]
    obtain n where n: "conn' = conn @ [n]"
      and h: "tracking_history n = Some (json_dumps (get_default d ''tracking_history'' (JArr [])))"
      and tn: "tracking_number n = sql_text (get d ''tracking_number'')"
      and tid: "Some (transaction_id n) =
             sql_text (if truthy (get d ''transaction'') then get d ''transaction''
                       else JStr (''track_'' @ py_str (get d ''tracking_number'')))"
      by blast
    have "keyed_by data n"
      using tn tid by (simp add: keyed_by_def d)
    with n h None show ?thesis
      unfolding hist by (intro bexI [of _ n]) simp_all
  next
    case (Some ex)
    note upd = track_updated_update [OF assms(1) [unfolded d] sel [unfolded Some] tag]
    note found = select_existing_found [OF sel [unfolded Some]]
    from found have mem: "ex \<in> set conn"
      by (rule conjunct1)
    from found
    have key: "if truthy (get d ''transaction'') then Some (transaction_id ex) = sql_text (get d ''transaction'')
          else tracking_number ex \<noteq> None \<and> tracking_number ex = sql_text (get d ''tracking_number'')"
      by (rule conjunct2)
    from mem obtain i where i: "i < length conn" "conn ! i = ex"
      by (auto simp: in_set_conv_nth)
    have len: "length conn' = length conn" by (subst upd) simp
    let ?r = "conn' ! i"
    have rin: "?r \<in> set conn'" using i len by simp
    have rid: "row_id ?r = row_id ex \<and> transaction_id ?r = transaction_id ex \<and>
               tracking_number ?r = coalesce (sql_text (get d ''tracking_number'')) (tracking_number ex) \<and>
               tracking_history ?r = Some (json_dumps (JArr xs))"
      using i by (subst upd, simp add: hist)+
    have "keyed_by data ?r"
      using key rid by (auto simp: keyed_by_def d split: if_splits)
    with rin rid Some show ?thesis
      by (intro bexI [of _ ?r]) simp_all
  qed
  with target decode_dumps [of xs] show ?thesis
    by (auto simp: decoded_history_def)
qed

theorem track_updated_history_witness:
  "supplied_history (example_delivered ''2024-01-06T08:29:58Z'') =
     JArr [JObj [(''status'', JStr ''PRE_TRANSIT'')], JObj [(''status'', JStr ''TRANSIT'')],
           JObj [(''status'', JStr ''DELIVERED'')]] \<and>
   list_ex (\<lambda>r. keyed_by (example_delivered ''2024-01-06T08:29:58Z'') r \<and>
                (\<exists>ys. decoded_history r = JArr ys \<and> length ys = 3))
     (the_store (handle_track_updated ''2024-01-06 08:30:00'' example_delivered_store
                   (example_delivered ''2024-01-06T08:29:58Z'')))"
proof -
  have run: "handle_track_updated ''2024-01-06 08:30:00'' example_delivered_store
        (example_delivered ''2024-01-06T08:29:58Z'') =
      Inr (the_store (handle_track_updated ''2024-01-06 08:30:00'' example_delivered_store
        (example_delivered ''2024-01-06T08:29:58Z'')))"
    by code_simp
  have hist: "supplied_history (example_delivered ''2024-01-06T08:29:58Z'') =
     JArr [JObj [(''status'', JStr ''PRE_TRANSIT'')], JObj [(''status'', JStr ''TRANSIT'')],
           JObj [(''status'', JStr ''DELIVERED'')]]"
    by code_simp
  from track_updated_history [OF run hist] hist show ?thesis
    unfolding list_ex_iff by auto
qed

section \<open>Properties of the webhook endpoint\<close>




end
